theory Spec2Isabelle
  imports Main "HOL-Library.Product_Lexorder" "HOL-Library.Multiset"
begin

section \<open>Snapshot rotation (rotate.py): a shallow embedding\<close>

text \<open>
  The development follows \<^verbatim>\<open>rotate.py\<close>. Python integers are \<^typ>\<open>int\<close>,
  Python's \<^verbatim>\<open>//\<close> and \<^verbatim>\<open>%\<close> are \<open>div\<close> and \<open>mod\<close> on \<^typ>\<open>int\<close> (both
  round towards minus infinity). Every exception the program can raise is a
  value of type \<open>error\<close>; a computation that may raise returns \<open>error + 'a\<close>.
\<close>

datatype error =
    OperationFailedException
  | OverflowError
  | TypeError
  | ValueError
  | ZeroDivisionError
  | NotADirectoryError
  | IndexError
  | InterpolationError
  | FileExistsError
  | OSError

subsection \<open>The datetime library, as far as the program uses it\<close>

text \<open>
  \<^verbatim>\<open>datetime.datetime\<close>: the seven calendar fields and the UTC offset of an
  aware value in microseconds (\<open>None\<close> for a naive value). The definitions
  below follow the reference implementation of the standard library
  (\<^verbatim>\<open>Lib/datetime.py\<close>).
\<close>

record datetime =
  year :: int
  month :: int
  day :: int
  hour :: int
  minute :: int
  second :: int
  microsecond :: int
  tzinfo :: "int option"

record timedelta =
  days :: int
  seconds :: int
  microseconds :: int

definition MAXORDINAL :: int where
  "MAXORDINAL = 3652059"

definition DAYS_IN_MONTH :: "int list" where
  "DAYS_IN_MONTH = [-1, 31, 28, 31, 30, 31, 30, 31, 31, 30, 31, 30, 31]"

definition DAYS_BEFORE_MONTH :: "int list" where
  "DAYS_BEFORE_MONTH = [-1, 0, 31, 59, 90, 120, 151, 181, 212, 243, 273, 304, 334]"

definition is_leap :: "int \<Rightarrow> bool" where
  "is_leap y = (y mod 4 = 0 \<and> (y mod 100 \<noteq> 0 \<or> y mod 400 = 0))"

definition days_before_year :: "int \<Rightarrow> int" where
  "days_before_year y = (let z = y - 1 in z * 365 + z div 4 - z div 100 + z div 400)"

definition days_in_month :: "int \<Rightarrow> int \<Rightarrow> int" where
  "days_in_month y m = (if m = 2 \<and> is_leap y then 29 else DAYS_IN_MONTH ! nat m)"

definition days_before_month :: "int \<Rightarrow> int \<Rightarrow> int" where
  "days_before_month y m =
     DAYS_BEFORE_MONTH ! nat m + (if m > 2 \<and> is_leap y then 1 else 0)"

definition ymd2ord :: "int \<Rightarrow> int \<Rightarrow> int \<Rightarrow> int" where
  "ymd2ord y m d = days_before_year y + days_before_month y m + d"

definition DI400Y :: int where
  "DI400Y = days_before_year 401"

definition DI100Y :: int where
  "DI100Y = days_before_year 101"

definition DI4Y :: int where
  "DI4Y = days_before_year 5"

definition ord2ymd :: "int \<Rightarrow> int \<times> int \<times> int" where
  "ord2ymd n0 =
     (let n = n0 - 1;
          n400 = n div DI400Y; n = n mod DI400Y;
          y = n400 * 400 + 1;
          n100 = n div DI100Y; n = n mod DI100Y;
          n4 = n div DI4Y; n = n mod DI4Y;
          n1 = n div 365; n = n mod 365;
          y = y + n100 * 100 + n4 * 4 + n1
      in if n1 = 4 \<or> n100 = 4 then (y - 1, 12, 31)
         else
           let leapyear = (n1 = 3 \<and> (n4 \<noteq> 24 \<or> n100 = 3));
               m = (n + 50) div 32;
               preceding = DAYS_BEFORE_MONTH ! nat m + (if m > 2 \<and> leapyear then 1 else 0)
           in if preceding > n
              then let m = m - 1;
                       preceding = preceding
                         - (DAYS_IN_MONTH ! nat m + (if m = 2 \<and> leapyear then 1 else 0))
                   in (y, m, n - preceding + 1)
              else (y, m, n - preceding + 1))"

definition toordinal :: "datetime \<Rightarrow> int" where
  "toordinal dt = ymd2ord (year dt) (month dt) (day dt)"

text \<open>\<^verbatim>\<open>date.weekday()\<close>: Monday is 0 and Sunday is 6.\<close>

definition weekday :: "datetime \<Rightarrow> int" where
  "weekday dt = (toordinal dt + 6) mod 7"

text \<open>
  The checks of the \<^verbatim>\<open>datetime\<close> constructor
  (\<^verbatim>\<open>_check_date_fields\<close>, \<^verbatim>\<open>_check_time_fields\<close>) and of \<^verbatim>\<open>timezone\<close>: every
  datetime value that exists in a run satisfies them.
\<close>

definition check_date_fields :: "int \<Rightarrow> int \<Rightarrow> int \<Rightarrow> bool" where
  "check_date_fields y m d =
     (1 \<le> y \<and> y \<le> 9999 \<and> 1 \<le> m \<and> m \<le> 12 \<and> 1 \<le> d \<and> d \<le> days_in_month y m)"

definition check_time_fields :: "int \<Rightarrow> int \<Rightarrow> int \<Rightarrow> int \<Rightarrow> bool" where
  "check_time_fields h mi s us =
     (0 \<le> h \<and> h \<le> 23 \<and> 0 \<le> mi \<and> mi \<le> 59 \<and> 0 \<le> s \<and> s \<le> 59 \<and> 0 \<le> us \<and> us \<le> 999999)"

definition check_utc_offset :: "int option \<Rightarrow> bool" where
  "check_utc_offset tz =
     (case tz of None \<Rightarrow> True | Some off \<Rightarrow> - 86400000000 < off \<and> off < 86400000000)"

definition valid_datetime :: "datetime \<Rightarrow> bool" where
  "valid_datetime dt =
     (check_date_fields (year dt) (month dt) (day dt)
      \<and> check_time_fields (hour dt) (minute dt) (second dt) (microsecond dt)
      \<and> check_utc_offset (tzinfo dt))"

text \<open>
  \<^verbatim>\<open>timedelta(days, seconds, microseconds)\<close>: the constructor normalises its
  arguments and raises \<^verbatim>\<open>OverflowError\<close> beyond 999999999 days.
\<close>

definition timedelta_of :: "int \<Rightarrow> int \<Rightarrow> int \<Rightarrow> error + timedelta" where
  "timedelta_of d s us =
     (let total = (d * 86400 + s) * 1000000 + us;
          d' = total div 86400000000;
          r = total mod 86400000000
      in if \<bar>d'\<bar> > 999999999 then Inl OverflowError
         else Inr \<lparr>days = d', seconds = r div 1000000, microseconds = r mod 1000000\<rparr>)"

text \<open>\<^verbatim>\<open>datetime.__add__\<close>: a datetime plus a timedelta.\<close>

definition datetime_add :: "datetime \<Rightarrow> timedelta \<Rightarrow> error + datetime" where
  "datetime_add dt other =
     (case timedelta_of (toordinal dt)
             (hour dt * 3600 + minute dt * 60 + second dt) (microsecond dt) of
        Inl e \<Rightarrow> Inl e
      | Inr d0 \<Rightarrow>
          (case timedelta_of (days d0 + days other) (seconds d0 + seconds other)
                  (microseconds d0 + microseconds other) of
             Inl e \<Rightarrow> Inl e
           | Inr delta \<Rightarrow>
               let h = seconds delta div 3600;
                   rem = seconds delta mod 3600;
                   mi = rem div 60;
                   s = rem mod 60
               in if 0 < days delta \<and> days delta \<le> MAXORDINAL
                  then (case ord2ymd (days delta) of
                          (y, m, d) \<Rightarrow>
                            Inr \<lparr>year = y, month = m, day = d, hour = h, minute = mi,
                                 second = s, microsecond = microseconds delta,
                                 tzinfo = tzinfo dt\<rparr>)
                  else Inl OverflowError))"

text \<open>
  \<^verbatim>\<open>datetime.__sub__\<close> on two datetimes: a naive and an aware operand raise
  \<^verbatim>\<open>TypeError\<close>; two aware operands are compared through their offsets.
\<close>

definition datetime_sub :: "datetime \<Rightarrow> datetime \<Rightarrow> error + timedelta" where
  "datetime_sub a b =
     (let secs1 = second a + minute a * 60 + hour a * 3600;
          secs2 = second b + minute b * 60 + hour b * 3600
      in case timedelta_of (toordinal a - toordinal b) (secs1 - secs2)
                (microsecond a - microsecond b) of
           Inl e \<Rightarrow> Inl e
         | Inr base \<Rightarrow>
             if tzinfo a = tzinfo b then Inr base
             else (case (tzinfo a, tzinfo b) of
                     (Some myoff, Some otoff) \<Rightarrow>
                       timedelta_of (days base) (seconds base)
                         (microseconds base + otoff - myoff)
                   | _ \<Rightarrow> Inl TypeError))"

text \<open>
  \<^verbatim>\<open>a < b\<close> on datetimes (\<^verbatim>\<open>datetime._cmp\<close>): equal offsets compare the field
  tuples; different offsets compare the instants; a naive and an aware operand
  raise \<^verbatim>\<open>TypeError\<close>.
\<close>

definition field_tuple :: "datetime \<Rightarrow> int \<times> int \<times> int \<times> int \<times> int \<times> int \<times> int" where
  "field_tuple dt = (year dt, month dt, day dt, hour dt, minute dt, second dt, microsecond dt)"

definition datetime_lt :: "datetime \<Rightarrow> datetime \<Rightarrow> error + bool" where
  "datetime_lt a b =
     (if tzinfo a = tzinfo b then Inr (field_tuple a < field_tuple b)
      else (case (tzinfo a, tzinfo b) of
              (Some _, Some _) \<Rightarrow>
                (case datetime_sub a b of
                   Inl e \<Rightarrow> Inl e
                 | Inr diff \<Rightarrow> Inr (days diff < 0))
            | _ \<Rightarrow> Inl TypeError))"

text \<open>\<^verbatim>\<open>date.isocalendar\<close> and its helper \<^verbatim>\<open>_isoweek1monday\<close>.\<close>

definition isoweek1monday :: "int \<Rightarrow> int" where
  "isoweek1monday y =
     (let firstday = ymd2ord y 1 1;
          firstweekday = (firstday + 6) mod 7;
          week1monday = firstday - firstweekday
      in if firstweekday > 3 then week1monday + 7 else week1monday)"

definition isocalendar :: "datetime \<Rightarrow> int \<times> int \<times> int" where
  "isocalendar dt =
     (let y = year dt;
          week1monday = isoweek1monday y;
          today = ymd2ord (year dt) (month dt) (day dt);
          week = (today - week1monday) div 7;
          wd = (today - week1monday) mod 7
      in if week < 0
         then let y = y - 1;
                  week1monday = isoweek1monday y;
                  week = (today - week1monday) div 7;
                  wd = (today - week1monday) mod 7
              in (y, week + 1, wd + 1)
         else if week \<ge> 52
         then (if today \<ge> isoweek1monday (y + 1)
               then (y + 1, 0 + 1, wd + 1)
               else (y, week + 1, wd + 1))
         else (y, week + 1, wd + 1))"

subsection \<open>Utility functions\<close>

text \<open>\<^verbatim>\<open>datetime.datetime(1, 1, 1)\<close>.\<close>

definition datetime_1_1_1 :: datetime where
  "datetime_1_1_1 =
     \<lparr>year = 1, month = 1, day = 1, hour = 0, minute = 0, second = 0,
      microsecond = 0, tzinfo = None\<rparr>"

definition julian_day :: "datetime \<Rightarrow> error + int" where
  "julian_day dt =
     (case datetime_sub dt datetime_1_1_1 of
        Inl e \<Rightarrow> Inl e
      | Inr delta \<Rightarrow> Inr (days delta + 1721426))"

subsection \<open>Intervals\<close>

text \<open>
  An interval maps a datetime to a bucket key: a tuple of integers or a single
  integer. As in the source, an interval is a function value.
\<close>

datatype bucket = Key_tuple "int list" | Key_int int

type_synonym Interval = "datetime \<Rightarrow> error + bucket"

definition interval_daily :: Interval where
  "interval_daily dt = Inr (Key_tuple [year dt, month dt, day dt])"

definition interval_weekly :: Interval where
  "interval_weekly dt = (case isocalendar dt of (y, week, _) \<Rightarrow> Inr (Key_tuple [y, week]))"

definition interval_monthly :: Interval where
  "interval_monthly dt = Inr (Key_tuple [year dt, month dt])"

definition interval_biyearly :: Interval where
  "interval_biyearly dt = Inr (Key_tuple [year dt, if month dt \<le> 6 then 1 else 2])"

definition interval_yearly :: Interval where
  "interval_yearly dt = Inr (Key_int (year dt))"

definition interval_custom :: "int \<Rightarrow> Interval" where
  "interval_custom n dt =
     (case julian_day dt of
        Inl e \<Rightarrow> Inl e
      | Inr j \<Rightarrow> if n = 0 then Inl ZeroDivisionError else Inr (Key_int (j div n)))"


subsection \<open>Strings and integer conversion\<close>

text \<open>
  A Python \<^verbatim>\<open>str\<close> is a list of characters; the model covers the code
  points below 256. \<^verbatim>\<open>str.strip()\<close> removes the characters for which
  \<^verbatim>\<open>str.isspace()\<close> holds; \<^verbatim>\<open>int(s)\<close> skips a smaller set of blanks, then
  reads an optional sign and decimal digits, where single underscores may
  separate digits. \<open>None\<close> stands for \<^verbatim>\<open>ValueError\<close>.
\<close>

definition isspace :: "char \<Rightarrow> bool" where
  "isspace c = (let n = (of_char c :: nat)
                in (9 \<le> n \<and> n \<le> 13) \<or> (28 \<le> n \<and> n \<le> 32) \<or> n = 133 \<or> n = 160)"

definition int_blank :: "char \<Rightarrow> bool" where
  "int_blank c = (let n = (of_char c :: nat)
                  in (9 \<le> n \<and> n \<le> 13) \<or> n = 32 \<or> n = 133 \<or> n = 160)"

definition strip_chars :: "(char \<Rightarrow> bool) \<Rightarrow> string \<Rightarrow> string" where
  "strip_chars P s = rev (dropWhile P (rev (dropWhile P s)))"

definition strip :: "string \<Rightarrow> string" where
  "strip s = strip_chars isspace s"

definition is_digit :: "char \<Rightarrow> bool" where
  "is_digit c = (let n = (of_char c :: nat) in 48 \<le> n \<and> n \<le> 57)"

definition digit_val :: "char \<Rightarrow> int" where
  "digit_val c = int (of_char c) - 48"

definition digit_char :: "int \<Rightarrow> char" where
  "digit_char n = char_of (48 + nat n)"

fun int_digits :: "int \<Rightarrow> bool \<Rightarrow> string \<Rightarrow> int option" where
  "int_digits acc after_digit [] = (if after_digit then Some acc else None)"
| "int_digits acc after_digit (c # cs) =
     (if is_digit c then int_digits (acc * 10 + digit_val c) True cs
      else if c = CHR ''_'' \<and> after_digit then int_digits acc False cs
      else None)"

text \<open>
  \<^verbatim>\<open>sys.int_info.default_max_str_digits\<close>: \<^verbatim>\<open>int(s)\<close> raises \<^verbatim>\<open>ValueError\<close> when
  \<open>s\<close> has more digits than this (Python 3.11, and the later releases of 3.7 to
  3.10). Signs, blanks and underscores do not count.
\<close>

definition MAX_STR_DIGITS :: nat where
  "MAX_STR_DIGITS = 4300"

definition py_int :: "string \<Rightarrow> int option" where
  "py_int s =
     (if length (filter is_digit s) > MAX_STR_DIGITS then None
      else case strip_chars int_blank s of
             [] \<Rightarrow> None
           | c # cs \<Rightarrow>
               if c = CHR ''-'' then map_option uminus (int_digits 0 False cs)
               else if c = CHR ''+'' then int_digits 0 False cs
               else int_digits 0 False (c # cs))"

definition days_from_string :: "string \<Rightarrow> int option" where
  "days_from_string string0 =
     (let string = strip string0
      in if string \<noteq> [] \<and> last string = CHR ''d'' then py_int (butlast string) else None)"

subsection \<open>Formatting and parsing timestamps\<close>

text \<open>
  \<^verbatim>\<open>"%0kd" % n\<close>: the decimal digits of \<open>n\<close>, padded with zeros on the left to
  width \<open>k\<close>.
\<close>

fun decimal :: "nat \<Rightarrow> string" where
  "decimal n = (if n < 10 then [digit_char (int n)]
                else decimal (n div 10) @ [digit_char (int (n mod 10))])"

declare decimal.simps [simp del]

definition zero_pad :: "nat \<Rightarrow> int \<Rightarrow> string" where
  "zero_pad k n =
     (if n < 0
      then CHR ''-'' # replicate (k - 1 - length (decimal (nat (- n)))) CHR ''0'' @ decimal (nat (- n))
      else replicate (k - length (decimal (nat n))) CHR ''0'' @ decimal (nat n))"

text \<open>\<^verbatim>\<open>_format_offset\<close>: the UTC offset as \<^verbatim>\<open>+HH:MM[:SS[.ffffff]]\<close>.\<close>

definition format_offset :: "int option \<Rightarrow> string" where
  "format_offset off0 =
     (case off0 of
        None \<Rightarrow> []
      | Some off1 \<Rightarrow>
          let sign = (if off1 < 0 then CHR ''-'' else CHR ''+'');
              off = (if off1 < 0 then - off1 else off1);
              hh = off div 3600000000;
              mm0 = off mod 3600000000;
              mm = mm0 div 60000000;
              ss = mm0 mod 60000000
          in sign # zero_pad 2 hh @ '':'' @ zero_pad 2 mm
             @ (if ss \<noteq> 0
                then '':'' @ zero_pad 2 (ss div 1000000)
                     @ (if ss mod 1000000 \<noteq> 0 then ''.'' @ zero_pad 6 (ss mod 1000000) else [])
                else []))"

text \<open>\<^verbatim>\<open>dt.isoformat(sep=" ", timespec="minutes")\<close>.\<close>

definition format_time :: "datetime \<Rightarrow> string" where
  "format_time dt =
     zero_pad 4 (year dt) @ ''-'' @ zero_pad 2 (month dt) @ ''-'' @ zero_pad 2 (day dt)
     @ '' '' @ zero_pad 2 (hour dt) @ '':'' @ zero_pad 2 (minute dt)
     @ format_offset (tzinfo dt)"

text \<open>
  \<^verbatim>\<open>datetime.fromisoformat\<close>, on the grammar the library documents for it:
  \<^verbatim>\<open>YYYY-MM-DD[*HH[:MM[:SS[.fff[fff]]]][+HH:MM[:SS[.ffffff]]]]\<close>, where \<^verbatim>\<open>*\<close> is
  any single character. The fields then pass the checks of the constructor.
  \<open>None\<close> stands for \<^verbatim>\<open>ValueError\<close>, the only exception it raises on a string.
\<close>

definition parse_digits :: "string \<Rightarrow> int option" where
  "parse_digits s =
     (if s \<noteq> [] \<and> list_all is_digit s
      then Some (foldl (\<lambda>acc c. acc * 10 + digit_val c) 0 s)
      else None)"

definition parse_isoformat_date :: "string \<Rightarrow> (int \<times> int \<times> int) option" where
  "parse_isoformat_date dtstr =
     (if length dtstr = 10 \<and> dtstr ! 4 = CHR ''-'' \<and> dtstr ! 7 = CHR ''-''
      then (case (parse_digits (take 4 dtstr), parse_digits (take 2 (drop 5 dtstr)),
                  parse_digits (take 2 (drop 8 dtstr))) of
              (Some y, Some m, Some d) \<Rightarrow> Some (y, m, d)
            | _ \<Rightarrow> None)
      else None)"

definition parse_hh_mm_ss_ff :: "string \<Rightarrow> (int \<times> int \<times> int \<times> int) option" where
  "parse_hh_mm_ss_ff tstr =
     (let n = length tstr;
          hh = parse_digits (take 2 tstr);
          mm = parse_digits (take 2 (drop 3 tstr));
          ss = parse_digits (take 2 (drop 6 tstr));
          ff = parse_digits (drop 9 tstr)
      in if n = 2 then
           (case hh of Some h \<Rightarrow> Some (h, 0, 0, 0) | _ \<Rightarrow> None)
         else if n = 5 \<and> tstr ! 2 = CHR '':'' then
           (case (hh, mm) of (Some h, Some mi) \<Rightarrow> Some (h, mi, 0, 0) | _ \<Rightarrow> None)
         else if n = 8 \<and> tstr ! 2 = CHR '':'' \<and> tstr ! 5 = CHR '':'' then
           (case (hh, mm, ss) of (Some h, Some mi, Some s) \<Rightarrow> Some (h, mi, s, 0) | _ \<Rightarrow> None)
         else if (n = 12 \<or> n = 15) \<and> tstr ! 2 = CHR '':'' \<and> tstr ! 5 = CHR '':''
                 \<and> tstr ! 8 = CHR ''.'' then
           (case (hh, mm, ss, ff) of
              (Some h, Some mi, Some s, Some f) \<Rightarrow>
                Some (h, mi, s, if n = 12 then f * 1000 else f)
            | _ \<Rightarrow> None)
         else None)"

definition is_sign :: "char \<Rightarrow> bool" where
  "is_sign c = (c = CHR ''+'' \<or> c = CHR ''-'')"

definition parse_isoformat_time ::
  "string \<Rightarrow> (int \<times> int \<times> int \<times> int \<times> int option) option" where
  "parse_isoformat_time tstr =
     (let timestr = takeWhile (\<lambda>c. \<not> is_sign c) tstr;
          rest = dropWhile (\<lambda>c. \<not> is_sign c) tstr
      in case parse_hh_mm_ss_ff timestr of
           None \<Rightarrow> None
         | Some (h, mi, s, us) \<Rightarrow>
             (case rest of
                [] \<Rightarrow> Some (h, mi, s, us, None)
              | sg # tzstr \<Rightarrow>
                  if length tzstr = 5 \<or> length tzstr = 8 \<or> length tzstr = 15
                  then (case parse_hh_mm_ss_ff tzstr of
                          None \<Rightarrow> None
                        | Some (th, tm, ts, tus) \<Rightarrow>
                            let td = ((th * 3600 + tm * 60 + ts) * 1000000 + tus);
                                off = (if sg = CHR ''-'' then - td else td)
                            in Some (h, mi, s, us, Some off))
                  else None))"

definition new_datetime ::
  "int \<Rightarrow> int \<Rightarrow> int \<Rightarrow> int \<Rightarrow> int \<Rightarrow> int \<Rightarrow> int \<Rightarrow> int option \<Rightarrow> datetime option" where
  "new_datetime y m d h mi s us tz =
     (if check_date_fields y m d \<and> check_time_fields h mi s us \<and> check_utc_offset tz
      then Some \<lparr>year = y, month = m, day = d, hour = h, minute = mi, second = s,
                 microsecond = us, tzinfo = tz\<rparr>
      else None)"

definition fromisoformat :: "string \<Rightarrow> datetime option" where
  "fromisoformat date_string =
     (case parse_isoformat_date (take 10 date_string) of
        None \<Rightarrow> None
      | Some (y, m, d) \<Rightarrow>
          if length date_string = 10 then new_datetime y m d 0 0 0 0 None
          else (case parse_isoformat_time (drop 11 date_string) of
                  None \<Rightarrow> None
                | Some (h, mi, s, us, tz) \<Rightarrow> new_datetime y m d h mi s us tz))"


subsection \<open>Resolving intervals\<close>

definition INTERVALS :: "string \<rightharpoonup> Interval" where
  "INTERVALS =
     [''daily'' \<mapsto> interval_daily,
      ''weekly'' \<mapsto> interval_weekly,
      ''monthly'' \<mapsto> interval_monthly,
      ''biyearly'' \<mapsto> interval_biyearly,
      ''yearly'' \<mapsto> interval_yearly]"

definition interval_from_string :: "string \<Rightarrow> Interval option" where
  "interval_from_string string0 =
     (let string = strip string0
      in case INTERVALS string of
           Some interval \<Rightarrow> Some interval
         | None \<Rightarrow>
             (case days_from_string string of
                Some n \<Rightarrow> if n > 0 then Some (interval_custom n) else None
              | None \<Rightarrow> None))"

subsection \<open>The outside world, output and commands\<close>

text \<open>
  A path is its list of components; \<^verbatim>\<open>directory / name\<close> appends one. The
  file system is observed through \<open>fs\<close>: a path is absent, a file, or a directory
  with its entries in the order \<^verbatim>\<open>iterdir()\<close> yields them. Two more
  observations decide failures: the exception, if any, that creating the parent
  directory of a target raises (\<^verbatim>\<open>FileExistsError\<close> or another \<^verbatim>\<open>OSError\<close>), and
  whether an external command exits with a non-zero status.
\<close>

type_synonym Path = "string list"

datatype node = Absent | File | Dir "string list"

datatype arg = S string | P Path

record env =
  fs :: "Path \<Rightarrow> node"
  mkdir :: "Path \<Rightarrow> error option"
  command_fails :: "arg list \<Rightarrow> bool"

text \<open>
  One constructor of \<open>message\<close> for each text the program prints through
  \<^verbatim>\<open>util.say\<close>; \<open>Command\<close> records a call of \<^verbatim>\<open>Util.run\<close> with its arguments.
\<close>

datatype message =
    Msg_source_directory Path
  | Msg_snapshot_directory Path
  | Msg_config_file Path
  | Msg_time string
  | Msg_dry_run bool
  | Msg_sections "string list"
  | Msg_blank
  | Msg_section string
  | Msg_invalid_method
  | Msg_invalid_interval
  | Msg_invalid_offset
  | Msg_invalid_amount
  | Msg_section_skipped
  | Msg_not_a_directory Path
  | Msg_bad_name Path
  | Msg_already_covered Path
  | Msg_making_new

datatype event = Say message | Command "arg list"

text \<open>
  A statement of the program yields the events it produced and then either a
  value or the exception that ended it.
\<close>

type_synonym 'a result = "event list \<times> (error + 'a)"

definition return :: "'a \<Rightarrow> 'a result" where
  "return x = ([], Inr x)"

definition raise :: "error \<Rightarrow> 'a result" where
  "raise e = ([], Inl e)"

definition lift :: "error + 'a \<Rightarrow> 'a result" where
  "lift r = ([], r)"

definition say :: "message \<Rightarrow> unit result" where
  "say m = ([Say m], Inr ())"

definition bind :: "'a result \<Rightarrow> ('a \<Rightarrow> 'b result) \<Rightarrow> 'b result" where
  "bind m f =
     (case m of
        (ev, Inl e) \<Rightarrow> (ev, Inl e)
      | (ev, Inr x) \<Rightarrow> (case f x of (ev', r) \<Rightarrow> (ev @ ev', r)))"

record Util =
  prefix :: string
  dry_run :: bool

text \<open>\<^verbatim>\<open>Method.run\<close> over \<^verbatim>\<open>Util.run\<close>: a failing command raises \<^verbatim>\<open>OperationFailedException\<close>.\<close>

definition run :: "Util \<Rightarrow> env \<Rightarrow> arg list \<Rightarrow> unit result" where
  "run util world args =
     ([Command args],
      if dry_run util then Inr ()
      else if command_fails world args then Inl OperationFailedException
      else Inr ())"

subsection \<open>Methods\<close>

datatype Method = CopyMethod | HardlinkMethod | BtrfsSnapshotMethod

definition prepare_target :: "Util \<Rightarrow> env \<Rightarrow> Path \<Rightarrow> unit result" where
  "prepare_target util world target =
     (if fs world target \<noteq> Absent then raise OperationFailedException
      else if dry_run util then return ()
      else (case mkdir world (butlast target) of
              None \<Rightarrow> return ()
            | Some FileExistsError \<Rightarrow> raise OperationFailedException
            | Some e \<Rightarrow> raise e))"

definition create_command :: "Method \<Rightarrow> Path \<Rightarrow> Path \<Rightarrow> arg list" where
  "create_command m source target =
     (case m of
        CopyMethod \<Rightarrow> [S ''cp'', S ''-ar'', P source, P target]
      | HardlinkMethod \<Rightarrow> [S ''cp'', S ''-arl'', P source, P target]
      | BtrfsSnapshotMethod \<Rightarrow>
          [S ''btrfs'', S ''subvolume'', S ''snapshot'', S ''-r'', P source, P target])"

definition remove_command :: "Method \<Rightarrow> Path \<Rightarrow> arg list" where
  "remove_command m target =
     (case m of
        CopyMethod \<Rightarrow> [S ''rm'', S ''-rf'', P target]
      | HardlinkMethod \<Rightarrow> [S ''rm'', S ''-rf'', P target]
      | BtrfsSnapshotMethod \<Rightarrow> [S ''btrfs'', S ''subvolume'', S ''delete'', P target])"

definition create_snapshot :: "Util \<Rightarrow> env \<Rightarrow> Method \<Rightarrow> Path \<Rightarrow> Path \<Rightarrow> unit result" where
  "create_snapshot util world m source target =
     bind (prepare_target util world target)
       (\<lambda>_. run util world (create_command m source target))"

definition remove_snapshot :: "Util \<Rightarrow> env \<Rightarrow> Method \<Rightarrow> Path \<Rightarrow> unit result" where
  "remove_snapshot util world m target = run util world (remove_command m target)"

definition method_from_string :: "string \<Rightarrow> Method option" where
  "method_from_string string =
     (if string = ''copy'' then Some CopyMethod
      else if string = ''hardlink'' then Some HardlinkMethod
      else if string = ''btrfs'' then Some BtrfsSnapshotMethod
      else None)"

subsection \<open>Snapshots\<close>

text \<open>The field \<^verbatim>\<open>when\<close> of the source is \<open>when_dt\<close> here.\<close>

record Snapshot =
  path :: Path
  when_dt :: datetime

text \<open>
  \<^verbatim>\<open>snapshots.sort(key=lambda x: x.when)\<close>: a stable sort that compares keys with
  \<^verbatim>\<open><\<close>. It is modelled as insertion from the right, which keeps entries with
  equal keys in their order of enumeration; a comparison that raises ends it.
\<close>

fun insort_snapshot :: "Snapshot \<Rightarrow> Snapshot list \<Rightarrow> error + Snapshot list" where
  "insort_snapshot x [] = Inr [x]"
| "insort_snapshot x (y # ys) =
     (case datetime_lt (when_dt y) (when_dt x) of
        Inl e \<Rightarrow> Inl e
      | Inr True \<Rightarrow> (case insort_snapshot x ys of Inl e \<Rightarrow> Inl e | Inr zs \<Rightarrow> Inr (y # zs))
      | Inr False \<Rightarrow> Inr (x # y # ys))"

fun sort_snapshots :: "Snapshot list \<Rightarrow> error + Snapshot list" where
  "sort_snapshots [] = Inr []"
| "sort_snapshots (x # xs) =
     (case sort_snapshots xs of Inl e \<Rightarrow> Inl e | Inr ys \<Rightarrow> insort_snapshot x ys)"

fun scan_children :: "env \<Rightarrow> Path \<Rightarrow> string list \<Rightarrow> event list \<times> Snapshot list" where
  "scan_children world directory [] = ([], [])"
| "scan_children world directory (name # rest) =
     (let child = directory @ [name];
          (ev, snapshots) = scan_children world directory rest
      in case fs world child of
           Dir _ \<Rightarrow>
             (case fromisoformat name of
                Some dt \<Rightarrow> (ev, \<lparr>path = child, when_dt = dt\<rparr> # snapshots)
              | None \<Rightarrow> (Say (Msg_bad_name child) # ev, snapshots))
         | _ \<Rightarrow> (Say (Msg_not_a_directory child) # ev, snapshots))"

definition find_snapshots :: "env \<Rightarrow> Path \<Rightarrow> Snapshot list result" where
  "find_snapshots world directory =
     (case fs world directory of
        Absent \<Rightarrow> return []
      | File \<Rightarrow> raise NotADirectoryError
      | Dir names \<Rightarrow>
          (case scan_children world directory names of
             (ev, snapshots) \<Rightarrow> (ev, sort_snapshots snapshots)))"

subsection \<open>Sections\<close>

text \<open>The field \<^verbatim>\<open>method\<close> of the source is \<open>snapshot_method\<close> here.\<close>

record SectionOptions =
  snapshot_method :: Method
  interval :: Interval
  offset :: int
  amount :: int

text \<open>
  A section of the configuration, as \<^verbatim>\<open>configparser\<close> presents it. Looking a key
  up finds nothing (the fallback is used then), or the value after the
  \<^verbatim>\<open>DEFAULT\<close> section and interpolation have been taken into account, or raises
  the exception of a failed interpolation. \<^verbatim>\<open>section.getint\<close> converts with
  \<^verbatim>\<open>int\<close>, whose \<^verbatim>\<open>ValueError\<close> is not caught.
\<close>

type_synonym Section = "string \<rightharpoonup> (error + string)"

definition get :: "Section \<Rightarrow> string \<Rightarrow> string \<Rightarrow> error + string" where
  "get sec key fallback = (case sec key of None \<Rightarrow> Inr fallback | Some r \<Rightarrow> r)"

definition getint :: "Section \<Rightarrow> string \<Rightarrow> int \<Rightarrow> error + int" where
  "getint sec key fallback =
     (case sec key of
        None \<Rightarrow> Inr fallback
      | Some (Inl e) \<Rightarrow> Inl e
      | Some (Inr v) \<Rightarrow> (case py_int v of None \<Rightarrow> Inl ValueError | Some n \<Rightarrow> Inr n))"

definition read_section_options :: "Section \<Rightarrow> SectionOptions option result" where
  "read_section_options sec =
     bind (lift (get sec ''method'' ''copy'')) (\<lambda>method_string.
     let maybe_method = method_from_string method_string in
     bind (if maybe_method = None then say Msg_invalid_method else return ()) (\<lambda>_.
     bind (lift (get sec ''interval'' ''daily'')) (\<lambda>interval_string.
     let maybe_interval = interval_from_string interval_string in
     bind (if maybe_interval = None then say Msg_invalid_interval else return ()) (\<lambda>_.
     bind (lift (get sec ''offset'' ''0d'')) (\<lambda>offset_string.
     let maybe_offset = days_from_string offset_string in
     bind (if maybe_offset = None then say Msg_invalid_offset else return ()) (\<lambda>_.
     bind (lift (getint sec ''amount'' 7)) (\<lambda>maybe_amount.
     bind (if maybe_amount \<le> 0 then say Msg_invalid_amount else return ()) (\<lambda>_.
     return
       (case (maybe_method, maybe_interval, maybe_offset) of
          (Some m, Some i, Some off) \<Rightarrow>
            if maybe_amount \<le> 0 then None
            else Some \<lparr>snapshot_method = m, interval = i, offset = off, amount = maybe_amount\<rparr>
        | _ \<Rightarrow> None)))))))))"

text \<open>\<^verbatim>\<open>config.sections()\<close> and \<^verbatim>\<open>config[name]\<close>.\<close>

record Config =
  sections :: "string list"
  getitem :: "string \<Rightarrow> Section"

record Options =
  source_dir :: Path
  snapshot_dir :: Path
  config_file :: Path
  time :: datetime
  config :: Config

text \<open>
  The coverage loop of \<^verbatim>\<open>do_section\<close>: the first snapshot whose shifted bucket
  equals the current one, or nothing when the loop runs to its \<^verbatim>\<open>else\<close> branch.
\<close>

fun covering :: "Interval \<Rightarrow> timedelta \<Rightarrow> bucket \<Rightarrow> Snapshot list \<Rightarrow> error + Snapshot option" where
  "covering iv off now_interval [] = Inr None"
| "covering iv off now_interval (snapshot # rest) =
     (case datetime_add (when_dt snapshot) off of
        Inl e \<Rightarrow> Inl e
      | Inr shifted \<Rightarrow>
          (case iv shifted of
             Inl e \<Rightarrow> Inl e
           | Inr snapshot_interval \<Rightarrow>
               if now_interval = snapshot_interval then Inr (Some snapshot)
               else covering iv off now_interval rest))"

text \<open>
  The coverage check of \<^verbatim>\<open>do_section\<close>: the bucket of the shifted current time,
  then the loop over the snapshots.
\<close>

definition coverage_check ::
  "Interval \<Rightarrow> timedelta \<Rightarrow> datetime \<Rightarrow> Snapshot list \<Rightarrow> error + Snapshot option" where
  "coverage_check iv off now snapshots =
     (case datetime_add now off of
        Inl e \<Rightarrow> Inl e
      | Inr shifted_now \<Rightarrow>
          (case iv shifted_now of
             Inl e \<Rightarrow> Inl e
           | Inr now_interval \<Rightarrow> covering iv off now_interval snapshots))"

text \<open>The pruning loop: \<^verbatim>\<open>while len(snapshots) > amount: snapshots.pop(0)\<close> and remove.\<close>

fun remove_old :: "Util \<Rightarrow> env \<Rightarrow> Method \<Rightarrow> int \<Rightarrow> Snapshot list \<Rightarrow> unit result" where
  "remove_old util world m limit [] =
     (if 0 > limit then raise IndexError else return ())"
| "remove_old util world m limit (snapshot # rest) =
     (if int (length (snapshot # rest)) > limit
      then (case remove_snapshot util world m (path snapshot) of
              (ev, Inl e) \<Rightarrow> (ev, Inl e)
            | (ev, Inr _) \<Rightarrow>
                (case remove_old util world m limit rest of (ev', r) \<Rightarrow> (ev @ ev', r)))
      else return ())"

definition do_section :: "Util \<Rightarrow> env \<Rightarrow> Options \<Rightarrow> string \<Rightarrow> unit result" where
  "do_section util world options section_name =
     bind (read_section_options (getitem (config options) section_name)) (\<lambda>section_options.
       case section_options of
         None \<Rightarrow> say Msg_section_skipped
       | Some so \<Rightarrow>
           let section_dir = snapshot_dir options @ [section_name]
           in bind (lift (timedelta_of (offset so) 0 0)) (\<lambda>off.
              bind (find_snapshots world section_dir) (\<lambda>snapshots.
              bind (lift (coverage_check (interval so) off (time options) snapshots)) (\<lambda>covered.
              bind (case covered of
                      Some snapshot \<Rightarrow>
                        bind (say (Msg_already_covered (path snapshot)))
                          (\<lambda>_. return (amount so))
                    | None \<Rightarrow>
                        bind (say Msg_making_new) (\<lambda>_.
                        bind (create_snapshot util world (snapshot_method so) (source_dir options)
                                (section_dir @ [format_time (time options)])) (\<lambda>_.
                        return (amount so - 1))))
                (\<lambda>limit. remove_old util world (snapshot_method so) limit snapshots)))))"

subsection \<open>The run\<close>

fun do_sections :: "Util \<Rightarrow> env \<Rightarrow> Options \<Rightarrow> string list \<Rightarrow> unit result" where
  "do_sections util world options [] = return ()"
| "do_sections util world options (section_name # rest) =
     (case bind (say Msg_blank) (\<lambda>_.
           bind (say (Msg_section section_name)) (\<lambda>_.
           do_section util world options section_name)) of
        (ev, Inl e) \<Rightarrow> (ev, Inl e)
      | (ev, Inr _) \<Rightarrow>
          (case do_sections util world options rest of (ev', r) \<Rightarrow> (ev @ ev', r)))"

definition main :: "Util \<Rightarrow> env \<Rightarrow> Options \<Rightarrow> unit result" where
  "main util world options =
     bind (say (Msg_source_directory (source_dir options))) (\<lambda>_.
     bind (say (Msg_snapshot_directory (snapshot_dir options))) (\<lambda>_.
     bind (say (Msg_config_file (config_file options))) (\<lambda>_.
     bind (say (Msg_time (format_time (time options)))) (\<lambda>_.
     bind (say (Msg_dry_run (dry_run util))) (\<lambda>_.
     bind (say (Msg_sections (sections (config options)))) (\<lambda>_.
     do_sections util world options (sections (config options))))))))"

text \<open>
  The script: \<^verbatim>\<open>main()\<close> under the handler of \<^verbatim>\<open>OperationFailedException\<close>, which
  prints and exits with status 1. Any other exception ends the interpreter
  with a traceback and status 1; a normal return gives status 0.
\<close>

datatype outcome = Completed | Operation_failed | Traceback error

definition exit_status :: "outcome \<Rightarrow> int" where
  "exit_status out = (case out of Completed \<Rightarrow> 0 | Operation_failed \<Rightarrow> 1 | Traceback _ \<Rightarrow> 1)"

definition script :: "Util \<Rightarrow> env \<Rightarrow> Options \<Rightarrow> event list \<times> outcome" where
  "script util world options =
     (case main util world options of
        (ev, Inr _) \<Rightarrow> (ev, Completed)
      | (ev, Inl OperationFailedException) \<Rightarrow> (ev, Operation_failed)
      | (ev, Inl e) \<Rightarrow> (ev, Traceback e))"


section \<open>Vocabulary of the properties\<close>

text \<open>Two datetimes on the same calendar date, and of the same kind (naive or aware).\<close>

definition same_date :: "datetime \<Rightarrow> datetime \<Rightarrow> bool" where
  "same_date a b = (year a = year b \<and> month a = month b \<and> day a = day b)"

definition same_kind :: "datetime \<Rightarrow> datetime \<Rightarrow> bool" where
  "same_kind a b = ((tzinfo a = None) = (tzinfo b = None))"

text \<open>The outcome of the coverage check as a decision: is a snapshot to be created?\<close>

definition creates :: "error + Snapshot option \<Rightarrow> error + bool" where
  "creates r = (case r of Inl e \<Rightarrow> Inl e | Inr covered \<Rightarrow> Inr (covered = None))"

definition valid_time :: "datetime \<Rightarrow> bool" where
  "valid_time dt = check_time_fields (hour dt) (minute dt) (second dt) (microsecond dt)"

definition date_only :: "Interval \<Rightarrow> bool" where
  "date_only iv =
     (\<forall>a b. valid_time a \<and> valid_time b \<and> same_date a b \<and> same_kind a b \<longrightarrow> iv a = iv b)"

definition alike :: "Snapshot \<Rightarrow> Snapshot \<Rightarrow> bool" where
  "alike s s' =
     (valid_datetime (when_dt s) \<and> valid_datetime (when_dt s')
      \<and> same_date (when_dt s) (when_dt s') \<and> same_kind (when_dt s) (when_dt s'))"

text \<open>The value of a run of decimal digits, continuing from \<open>acc\<close>.\<close>

definition digits_value :: "int \<Rightarrow> string \<Rightarrow> int" where
  "digits_value acc s = foldl (\<lambda>a c. a * 10 + digit_val c) acc s"

text \<open>
  \<open>resolve_scheme\<close> in the spec's words: the five named schemes, case-sensitively
  and exactly as spelled; otherwise a positive integer, written in decimal
  digits, followed by \<open>d\<close>; any other string is invalid.
\<close>

definition spec_resolve_scheme :: "string \<Rightarrow> Interval option" where
  "spec_resolve_scheme s =
     (if s = ''daily'' then Some interval_daily
      else if s = ''weekly'' then Some interval_weekly
      else if s = ''monthly'' then Some interval_monthly
      else if s = ''biyearly'' then Some interval_biyearly
      else if s = ''yearly'' then Some interval_yearly
      else if s \<noteq> [] \<and> last s = CHR ''d''
      then (case parse_digits (butlast s) of
              Some n \<Rightarrow> if n > 0 then Some (interval_custom n) else None
            | None \<Rightarrow> None)
      else None)"

subsection \<open>Concrete runs\<close>

text \<open>
  A naive datetime at minute precision; a world in which no directory creation
  and no command fails; the options of a run on the directory \<^verbatim>\<open>data\<close>; and the
  file systems and configurations of the runs examined below.
\<close>

definition naive :: "int \<Rightarrow> int \<Rightarrow> int \<Rightarrow> int \<Rightarrow> int \<Rightarrow> datetime" where
  "naive y m d h mi =
     \<lparr>year = y, month = m, day = d, hour = h, minute = mi, second = 0, microsecond = 0,
      tzinfo = None\<rparr>"

definition quiet_world :: "(Path \<Rightarrow> node) \<Rightarrow> env" where
  "quiet_world f = \<lparr>fs = f, mkdir = (\<lambda>_. None), command_fails = (\<lambda>_. False)\<rparr>"

definition options_at :: "datetime \<Rightarrow> string list \<Rightarrow> (string \<Rightarrow> Section) \<Rightarrow> Options" where
  "options_at now names sec =
     \<lparr>source_dir = [''data''], snapshot_dir = [''data-snapshots''],
      config_file = [''data-snapshots'', ''rotate.conf''], time = now,
      config = \<lparr>sections = names, getitem = sec\<rparr>\<rparr>"

definition real_run :: Util where
  "real_run = \<lparr>prefix = ''rotate.py'', dry_run = False\<rparr>"

definition c6_options :: Options where
  "c6_options =
     options_at (naive 2024 1 3 9 0) [''first'', ''second'']
       (\<lambda>name. if name = ''first'' then [''amount'' \<mapsto> Inr ''abc''] else Map.empty)"

definition c9_fs :: "Path \<Rightarrow> node" where
  "c9_fs p =
     (if p = [''data-snapshots'', ''daily'']
      then Dir [''2024-01-01 00:00'', ''2024-01-02 00:00+00:00'']
      else if p = [''data-snapshots'', ''daily'', ''2024-01-01 00:00''] then Dir []
      else if p = [''data-snapshots'', ''daily'', ''2024-01-02 00:00+00:00''] then Dir []
      else Absent)"

definition c3_fs :: "Path \<Rightarrow> node" where
  "c3_fs p =
     (if p = [''data-snapshots'', ''first'']
      then Dir [''2024-01-01 00:00'', ''2024-01-02 00:00'', ''2024-01-03 09:00'']
      else if p = [''data-snapshots'', ''first'', ''2024-01-01 00:00''] then Dir []
      else if p = [''data-snapshots'', ''first'', ''2024-01-02 00:00''] then Dir []
      else if p = [''data-snapshots'', ''first'', ''2024-01-03 09:00''] then File
      else Absent)"

definition c3_options :: Options where
  "c3_options =
     options_at (naive 2024 1 3 9 0) [''first'', ''second'']
       (\<lambda>name. if name = ''first'' then [''amount'' \<mapsto> Inr ''1''] else Map.empty)"

text \<open>
  The bucket key of a timestamp under an interval and an offset: the offset is
  added first, as \<^verbatim>\<open>do_section\<close> does for the current time and for every
  snapshot.
\<close>

definition bucket_key :: "Interval \<Rightarrow> timedelta \<Rightarrow> datetime \<Rightarrow> error + bucket" where
  "bucket_key iv off t = (case datetime_add t off of Inl e \<Rightarrow> Inl e | Inr shifted \<Rightarrow> iv shifted)"

text \<open>The removal commands for a list of snapshots, in their order.\<close>

definition removals :: "Method \<Rightarrow> Snapshot list \<Rightarrow> event list" where
  "removals m snapshots = map (\<lambda>s. Command (remove_command m (path s))) snapshots"

text \<open>The two diagnostics of \<^verbatim>\<open>find_snapshots\<close> for an entry it skips.\<close>

definition is_notice :: "event \<Rightarrow> bool" where
  "is_notice e =
     (case e of
        Say (Msg_not_a_directory _) \<Rightarrow> True
      | Say (Msg_bad_name _) \<Rightarrow> True
      | _ \<Rightarrow> False)"

text \<open>The run of the scenario with a monthly section and an offset of five days.\<close>

definition c1_fs :: "Path \<Rightarrow> node" where
  "c1_fs p =
     (if p = [''data-snapshots'', ''monthly''] then Dir [''2024-03-30 00:00'']
      else if p = [''data-snapshots'', ''monthly'', ''2024-03-30 00:00''] then Dir []
      else Absent)"

definition c1_options :: Options where
  "c1_options =
     options_at (naive 2024 3 27 10 0) [''monthly'']
       (\<lambda>name. [''interval'' \<mapsto> Inr ''monthly'', ''offset'' \<mapsto> Inr ''5d''])"

definition c1_snapshot :: Snapshot where
  "c1_snapshot =
     \<lparr>path = [''data-snapshots'', ''monthly'', ''2024-03-30 00:00''],
      when_dt = naive 2024 3 30 0 0\<rparr>"

text \<open>
  Five daily snapshots of 1 to 5 January 2024, which the directory lists in
  another order, and a section that keeps three snapshots, run on 5 January.
\<close>

definition january_fs :: "Path \<Rightarrow> node" where
  "january_fs p =
     (if p = [''data-snapshots'', ''daily'']
      then Dir [''2024-01-03 00:00'', ''2024-01-01 00:00'', ''2024-01-05 00:00'',
                ''2024-01-02 00:00'', ''2024-01-04 00:00'']
      else if length p = 3 \<and> take 2 p = [''data-snapshots'', ''daily'']
              \<and> last p \<in> set [''2024-01-01 00:00'', ''2024-01-02 00:00'', ''2024-01-03 00:00'',
                                ''2024-01-04 00:00'', ''2024-01-05 00:00'']
      then Dir []
      else Absent)"

definition c2_options :: Options where
  "c2_options =
     options_at (naive 2024 1 5 9 0) [''daily''] (\<lambda>name. [''amount'' \<mapsto> Inr ''3''])"

definition january_snapshot :: "int \<Rightarrow> Snapshot" where
  "january_snapshot d =
     \<lparr>path = [''data-snapshots'', ''daily'', ''2024-01-0'' @ [digit_char d] @ '' 00:00''],
      when_dt = naive 2024 1 d 0 0\<rparr>"

text \<open>
  The six lines that \<^verbatim>\<open>main\<close> prints before the first section.
\<close>

definition header :: "Util \<Rightarrow> Options \<Rightarrow> event list" where
  "header util options =
     [Say (Msg_source_directory (source_dir options)),
      Say (Msg_snapshot_directory (snapshot_dir options)),
      Say (Msg_config_file (config_file options)),
      Say (Msg_time (format_time (time options))),
      Say (Msg_dry_run (dry_run util)),
      Say (Msg_sections (sections (config options)))]"

text \<open>
  A creation that ends in \<^verbatim>\<open>OperationFailedException\<close>: the target exists, or, in a
  real run, \<^verbatim>\<open>mkdir\<close> of the parent raises \<^verbatim>\<open>FileExistsError\<close> or the command fails.
  A removal fails when, in a real run, its command fails.
\<close>

definition creation_fails :: "Util \<Rightarrow> env \<Rightarrow> Method \<Rightarrow> Path \<Rightarrow> Path \<Rightarrow> bool" where
  "creation_fails util world m source target =
     (fs world target \<noteq> Absent
      \<or> (\<not> dry_run util
           \<and> (mkdir world (butlast target) = Some FileExistsError
               \<or> (mkdir world (butlast target) = None
                   \<and> command_fails world (create_command m source target)))))"

definition removal_fails :: "Util \<Rightarrow> env \<Rightarrow> Method \<Rightarrow> Path \<Rightarrow> bool" where
  "removal_fails util world m p =
     (\<not> dry_run util \<and> command_fails world (remove_command m p))"

text \<open>
  The five snapshots above in a world where the removal of the oldest one
  fails, and a configuration with a second section after \<^verbatim>\<open>daily\<close>.
\<close>

definition c3_removal_world :: env where
  "c3_removal_world =
     \<lparr>fs = january_fs, mkdir = (\<lambda>_. None),
      command_fails = (\<lambda>args. args = remove_command CopyMethod (path (january_snapshot 1)))\<rparr>"

definition c3_removal_options :: Options where
  "c3_removal_options =
     options_at (naive 2024 1 5 9 0) [''daily'', ''weekly'']
       (\<lambda>name. if name = ''daily'' then [''amount'' \<mapsto> Inr ''3'']
                else [''interval'' \<mapsto> Inr ''weekly''])"

section \<open>Properties\<close>

subsection \<open>Calendar arithmetic\<close>

lemma div_step:
  fixes y n :: int
  assumes "0 < n"
  shows "y div n = (y - 1) div n + (if y mod n = 0 then 1 else 0)"
proof (cases "y mod n = 0")
  case True
  from True have "n * (y div n) = y" by (simp add: mod_0_imp_dvd)
  then have "y - 1 = n * (y div n - 1) + (n - 1)"
    by (simp add: algebra_simps)
  then have "(y - 1) div n = y div n - 1"
    by (rule int_div_pos_eq) (use assms in simp_all)
  with True show ?thesis by simp
next
  case False
  have r: "0 \<le> y mod n" "y mod n < n" using assms by simp_all
  have "y - 1 = n * (y div n) + (y mod n - 1)"
    by (simp add: algebra_simps)
  then have "(y - 1) div n = y div n"
    by (rule int_div_pos_eq) (use r False in simp_all)
  with False show ?thesis by simp
qed

lemma leap_step_abstract:
  fixes y q4 q100 q400 p4 p100 p400 :: int
  assumes "q4 = p4 + (if m4 then 1 else 0)"
    and "q100 = p100 + (if m100 then 1 else 0)"
    and "q400 = p400 + (if m400 then 1 else 0)"
    and "m400 \<Longrightarrow> m100" and "m100 \<Longrightarrow> m4"
  shows "y * 365 + q4 - q100 + q400
        = (y - 1) * 365 + p4 - p100 + p400 + 365
          + (if m4 \<and> (\<not> m100 \<or> m400) then 1 else 0)"
  by (cases m4; cases m100; cases m400) (use assms in auto)

lemma days_before_year_step:
  "days_before_year (y + 1) = days_before_year y + 365 + (if is_leap y then 1 else 0)"
proof -
  have a: "y div 4 = (y - 1) div 4 + (if y mod 4 = 0 then 1 else 0)" by (rule div_step) simp
  have b: "y div 100 = (y - 1) div 100 + (if y mod 100 = 0 then 1 else 0)" by (rule div_step) simp
  have c: "y div 400 = (y - 1) div 400 + (if y mod 400 = 0 then 1 else 0)" by (rule div_step) simp
  have d: "y mod 400 = 0 \<Longrightarrow> y mod 100 = 0"
    using mod_mod_cancel [of 100 400 y] by simp
  have e: "y mod 100 = 0 \<Longrightarrow> y mod 4 = 0"
    using mod_mod_cancel [of 4 100 y] by simp
  have "y * 365 + y div 4 - y div 100 + y div 400
        = (y - 1) * 365 + (y - 1) div 4 - (y - 1) div 100 + (y - 1) div 400 + 365
          + (if y mod 4 = 0 \<and> (\<not> y mod 100 = 0 \<or> y mod 400 = 0) then 1 else 0)"
    by (rule leap_step_abstract [OF a b c d e])
  then show ?thesis
    by (simp only: days_before_year_def is_leap_def Let_def add_diff_cancel_right')
qed

lemma ymd2ord_jan1: "ymd2ord y 1 1 = days_before_year y + 1"
  by (simp add: ymd2ord_def days_before_month_def DAYS_BEFORE_MONTH_def)

lemma ymd2ord_dec31: "ymd2ord y 12 31 = days_before_year (y + 1)"
  by (simp add: ymd2ord_def days_before_month_def DAYS_BEFORE_MONTH_def days_before_year_step)

lemma mod7_cases:
  fixes b :: int
  obtains q where "b = 7 * q" | q where "b = 7 * q + 1" | q where "b = 7 * q + 2"
    | q where "b = 7 * q + 3" | q where "b = 7 * q + 4" | q where "b = 7 * q + 5" | q where "b = 7 * q + 6"
proof -
  have e: "b = 7 * (b div 7) + b mod 7" by simp
  have "b mod 7 = 0 \<or> b mod 7 = 1 \<or> b mod 7 = 2 \<or> b mod 7 = 3 \<or> b mod 7 = 4 \<or> b mod 7 = 5 \<or> b mod 7 = 6"
    by presburger
  then show ?thesis
  proof (elim disjE)
    assume "b mod 7 = 0" with e have "b = 7 * (b div 7)" by simp then show ?thesis by (rule that(1))
  next
    assume "b mod 7 = 1" with e have "b = 7 * (b div 7) + 1" by simp then show ?thesis by (rule that(2))
  next
    assume "b mod 7 = 2" with e have "b = 7 * (b div 7) + 2" by simp then show ?thesis by (rule that(3))
  next
    assume "b mod 7 = 3" with e have "b = 7 * (b div 7) + 3" by simp then show ?thesis by (rule that(4))
  next
    assume "b mod 7 = 4" with e have "b = 7 * (b div 7) + 4" by simp then show ?thesis by (rule that(5))
  next
    assume "b mod 7 = 5" with e have "b = 7 * (b div 7) + 5" by simp then show ?thesis by (rule that(6))
  next
    assume "b mod 7 = 6" with e have "b = 7 * (b div 7) + 6" by simp then show ?thesis by (rule that(7))
  qed
qed

lemma weekly_boundary:
  assumes "month t1 = 12" "day t1 = 31" "month t2 = 1" "day t2 = 1" "year t2 = year t1 + 1"
  shows "(interval_weekly t1 = interval_weekly t2) = (weekday t2 \<noteq> 0)"
proof -
  define b where "b = days_before_year (year t1)"
  define l :: int where "l = (if is_leap (year t1) then 1 else 0)"
  have s1: "days_before_year (year t1 + 1) = b + 365 + l"
    by (simp add: b_def l_def days_before_year_step)
  have s0: "days_before_year (year t1) = b" by (simp add: b_def)
  have l: "l = 0 \<or> l = 1" by (simp add: l_def)
  note defs = weekday_def interval_weekly_def isocalendar_def isoweek1monday_def Let_def toordinal_def
        assms ymd2ord_jan1 ymd2ord_dec31 s1 s0
  from l show ?thesis
  proof
    assume "l = 0"
    then show ?thesis
      by (cases b rule: mod7_cases) (simp_all add: defs)
  next
    assume "l = 1"
    then show ?thesis
      by (cases b rule: mod7_cases) (simp_all add: defs)
  qed
qed

lemma timedelta_of_normal:
  assumes "0 \<le> s" "s < 86400" "0 \<le> us" "us < 1000000" "\<bar>d\<bar> \<le> 999999999"
  shows "timedelta_of d s us = Inr \<lparr>days = d, seconds = s, microseconds = us\<rparr>"
proof -
  define r where "r = s * 1000000 + us"
  have r: "0 \<le> r" "r < 86400000000" using assms by (simp_all add: r_def)
  have tot: "(d * 86400 + s) * 1000000 + us = 86400000000 * d + r"
    by (simp add: r_def algebra_simps)
  have dv: "((d * 86400 + s) * 1000000 + us) div 86400000000 = d"
    using tot r by (rule int_div_pos_eq)
  have md: "((d * 86400 + s) * 1000000 + us) mod 86400000000 = r"
    using tot r by (rule int_mod_pos_eq)
  have r2: "r = 1000000 * s + us" by (simp add: r_def)
  have sv: "r div 1000000 = s" using r2 assms(3,4) by (rule int_div_pos_eq)
  have uv: "r mod 1000000 = us" using r2 assms(3,4) by (rule int_mod_pos_eq)
  show ?thesis
    unfolding timedelta_of_def Let_def dv md sv uv using assms(5) by simp
qed

lemma timedelta_of_days:
  "timedelta_of k 0 0 =
     (if \<bar>k\<bar> > 999999999 then Inl OverflowError
      else Inr \<lparr>days = k, seconds = 0, microseconds = 0\<rparr>)"
proof -
  have "k * 86400 * 1000000 = k * 86400000000" by simp
  then show ?thesis by (simp add: timedelta_of_def Let_def)
qed

subsection \<open>Bucket keys around the turn of the year\<close>

text \<open>
  C5 (as the spec has it, refuted). The claim says that a December 31 and the
  following January 1 have different bucket keys under \<open>weekly\<close> too. Tuesday
  2024-12-31 and Wednesday 2025-01-01 both lie in ISO week 1 of 2025 and share
  the weekly key.
\<close>

theorem C5_weekly_counterexample:
  "interval_weekly \<lparr>year = 2024, month = 12, day = 31, hour = 0, minute = 0, second = 0,
                    microsecond = 0, tzinfo = None\<rparr>
   = interval_weekly \<lparr>year = 2025, month = 1, day = 1, hour = 0, minute = 0, second = 0,
                      microsecond = 0, tzinfo = None\<rparr>
   \<and> interval_weekly \<lparr>year = 2025, month = 1, day = 1, hour = 0, minute = 0, second = 0,
                        microsecond = 0, tzinfo = None\<rparr> = Inr (Key_tuple [2025, 1])"
  by (simp add: interval_weekly_def isocalendar_def isoweek1monday_def ymd2ord_def
      days_before_year_def days_before_month_def DAYS_BEFORE_MONTH_def is_leap_def Let_def)

text \<open>
  C5 (amended). Two timestamps of the same calendar day have the same daily
  key. For \<open>t1\<close> on a December 31 and \<open>t2\<close> on the following January 1 the
  keys differ under daily, monthly, biyearly and yearly; under weekly they
  differ exactly when that January 1 is a Monday, and are equal otherwise.
\<close>

theorem C5_year_boundary:
  assumes "month t1 = 12" and "day t1 = 31" and "month t2 = 1" and "day t2 = 1"
    and "year t2 = year t1 + 1"
  shows "(year a = year b \<and> month a = month b \<and> day a = day b
            \<longrightarrow> interval_daily a = interval_daily b)
       \<and> interval_daily t1 \<noteq> interval_daily t2
       \<and> interval_monthly t1 \<noteq> interval_monthly t2
       \<and> interval_biyearly t1 \<noteq> interval_biyearly t2
       \<and> interval_yearly t1 \<noteq> interval_yearly t2
       \<and> ((interval_weekly t1 \<noteq> interval_weekly t2) = (weekday t2 = 0))"
proof -
  have w: "(interval_weekly t1 = interval_weekly t2) = (weekday t2 \<noteq> 0)"
    using assms by (rule weekly_boundary)
  have d: "interval_daily t1 \<noteq> interval_daily t2"
    using assms by (simp add: interval_daily_def)
  have m: "interval_monthly t1 \<noteq> interval_monthly t2"
    using assms by (simp add: interval_monthly_def)
  have b: "interval_biyearly t1 \<noteq> interval_biyearly t2"
    using assms by (simp add: interval_biyearly_def)
  have y: "interval_yearly t1 \<noteq> interval_yearly t2"
    using assms by (simp add: interval_yearly_def)
  have s: "year a = year b \<and> month a = month b \<and> day a = day b
            \<longrightarrow> interval_daily a = interval_daily b"
    by (simp add: interval_daily_def)
  from w d m b y s show ?thesis by blast
qed

text \<open>
  Sunday 2023-12-31 and Monday 2024-01-01: every named scheme separates them,
  weekly included.
\<close>

theorem C5_year_boundary_witness:
  "interval_daily \<lparr>year = 2023, month = 12, day = 31, hour = 23, minute = 59, second = 0,
                   microsecond = 0, tzinfo = None\<rparr>
     \<noteq> interval_daily \<lparr>year = 2024, month = 1, day = 1, hour = 0, minute = 0, second = 0,
                        microsecond = 0, tzinfo = None\<rparr>
   \<and> interval_weekly \<lparr>year = 2023, month = 12, day = 31, hour = 23, minute = 59, second = 0,
                    microsecond = 0, tzinfo = None\<rparr>
     \<noteq> interval_weekly \<lparr>year = 2024, month = 1, day = 1, hour = 0, minute = 0, second = 0,
                         microsecond = 0, tzinfo = None\<rparr>"
proof -
  let ?t1 = "\<lparr>year = 2023, month = 12, day = 31, hour = 23, minute = 59, second = 0,
               microsecond = 0, tzinfo = None\<rparr>"
  let ?t2 = "\<lparr>year = 2024, month = 1, day = 1, hour = 0, minute = 0, second = 0,
               microsecond = 0, tzinfo = None\<rparr>"
  have monday: "weekday ?t2 = 0"
    by (simp add: weekday_def toordinal_def ymd2ord_def days_before_year_def
        days_before_month_def DAYS_BEFORE_MONTH_def is_leap_def Let_def)
  have "month ?t1 = 12" "day ?t1 = 31" "month ?t2 = 1" "day ?t2 = 1" "year ?t2 = year ?t1 + 1"
    by simp_all
  from C5_year_boundary [OF this, of ?t1 ?t1] monday show ?thesis by blast
qed

subsection \<open>Time arithmetic and the dependence of bucket keys on the date\<close>

lemma month_cases:
  fixes m :: int
  assumes "1 \<le> m" "m \<le> 12"
  shows "m = 1 \<or> m = 2 \<or> m = 3 \<or> m = 4 \<or> m = 5 \<or> m = 6 \<or> m = 7 \<or> m = 8 \<or> m = 9 \<or> m = 10
         \<or> m = 11 \<or> m = 12"
  using assms by arith

lemma days_before_month_bounds:
  assumes "1 \<le> m" "m \<le> 12"
  shows "0 \<le> days_before_month y m \<and> days_before_month y m \<le> 335"
  using month_cases [OF assms]
  by (elim disjE) (simp_all add: days_before_month_def DAYS_BEFORE_MONTH_def)

lemma days_in_month_bounds:
  assumes "1 \<le> m" "m \<le> 12"
  shows "28 \<le> days_in_month y m \<and> days_in_month y m \<le> 31"
  using month_cases [OF assms]
  by (elim disjE) (simp_all add: days_in_month_def DAYS_IN_MONTH_def)

lemma days_before_year_bounds:
  assumes "1 \<le> y" "y \<le> 9999"
  shows "0 \<le> days_before_year y \<and> days_before_year y \<le> 3651793"
proof -
  define z where "z = y - 1"
  define d4 where "d4 = z div 4"
  define d100 where "d100 = z div 100"
  define d400 where "d400 = z div 400"
  have z: "0 \<le> z" "z \<le> 9998" using assms by (simp_all add: z_def)
  have a: "d4 \<le> 2499" "d100 \<le> d4" "0 \<le> d100" "0 \<le> d400" "d400 \<le> 24"
  proof -
    have "z div 4 \<le> 9998 div 4" using z(2) by (rule zdiv_mono1) simp
    then show "d4 \<le> 2499" by (simp add: d4_def)
    have "z div 100 \<le> z div 4" using z(1) by (rule zdiv_mono2) simp_all
    then show "d100 \<le> d4" by (simp add: d4_def d100_def)
    show "0 \<le> d100" using z(1) by (simp add: d100_def pos_imp_zdiv_nonneg_iff)
    show "0 \<le> d400" using z(1) by (simp add: d400_def pos_imp_zdiv_nonneg_iff)
    have "z div 400 \<le> 9998 div 400" using z(2) by (rule zdiv_mono1) simp
    then show "d400 \<le> 24" by (simp add: d400_def)
  qed
  have "days_before_year y = z * 365 + d4 - d100 + d400"
    by (simp add: days_before_year_def Let_def z_def d4_def d100_def d400_def)
  then show ?thesis using z a by simp
qed

lemma toordinal_bounds:
  assumes "valid_datetime dt"
  shows "1 \<le> toordinal dt \<and> toordinal dt \<le> 3652159"
proof -
  from assms have y: "1 \<le> year dt" "year dt \<le> 9999" and m: "1 \<le> month dt" "month dt \<le> 12"
    and d: "1 \<le> day dt" "day dt \<le> days_in_month (year dt) (month dt)"
    by (simp_all add: valid_datetime_def check_date_fields_def)
  note days_before_year_bounds [OF y] days_before_month_bounds [OF m, of "year dt"]
    days_in_month_bounds [OF m, of "year dt"]
  then show ?thesis using d by (simp add: toordinal_def ymd2ord_def)
qed

lemma julian_day_naive:
  assumes "valid_datetime dt" "tzinfo dt = None"
  shows "julian_day dt = Inr (toordinal dt - 1 + 1721426)"
proof -
  from assms(1) have t: "0 \<le> hour dt" "hour dt \<le> 23" "0 \<le> minute dt" "minute dt \<le> 59"
    "0 \<le> second dt" "second dt \<le> 59" "0 \<le> microsecond dt" "microsecond dt \<le> 999999"
    by (simp_all add: valid_datetime_def check_time_fields_def)
  define s where "s = second dt + minute dt * 60 + hour dt * 3600"
  have s: "0 \<le> s" "s < 86400" using t by (simp_all add: s_def)
  have o: "\<bar>toordinal dt - 1\<bar> \<le> 999999999" using toordinal_bounds [OF assms(1)] by simp
  have us: "0 \<le> microsecond dt" "microsecond dt < 1000000" using t by simp_all
  have td: "timedelta_of (toordinal dt - 1) s (microsecond dt)
            = Inr \<lparr>days = toordinal dt - 1, seconds = s, microseconds = microsecond dt\<rparr>"
    using s us o by (rule timedelta_of_normal)
  have one: "ymd2ord 1 1 1 = 1"
    by (simp add: ymd2ord_def days_before_year_def days_before_month_def DAYS_BEFORE_MONTH_def)
  show ?thesis
    using td assms(2)
    by (simp add: julian_day_def datetime_sub_def datetime_1_1_1_def Let_def toordinal_def one s_def)
qed


lemma timedelta_of_in_day:
  assumes "0 \<le> s" "s < 86400" "0 \<le> us" "us < 1000000"
  shows "timedelta_of d s us =
           (if \<bar>d\<bar> > 999999999 then Inl OverflowError
            else Inr \<lparr>days = d, seconds = s, microseconds = us\<rparr>)"
proof -
  define r where "r = s * 1000000 + us"
  have r: "0 \<le> r" "r < 86400000000" using assms by (simp_all add: r_def)
  have tot: "(d * 86400 + s) * 1000000 + us = 86400000000 * d + r"
    by (simp add: r_def algebra_simps)
  have dv: "((d * 86400 + s) * 1000000 + us) div 86400000000 = d"
    using tot r by (rule int_div_pos_eq)
  have md: "((d * 86400 + s) * 1000000 + us) mod 86400000000 = r"
    using tot r by (rule int_mod_pos_eq)
  have r2: "r = 1000000 * s + us" by (simp add: r_def)
  have sv: "r div 1000000 = s" using r2 assms(3,4) by (rule int_div_pos_eq)
  have uv: "r mod 1000000 = us" using r2 assms(3,4) by (rule int_mod_pos_eq)
  show ?thesis
    unfolding timedelta_of_def Let_def dv md sv uv by simp
qed

lemma time_of_day:
  assumes "check_time_fields h mi s us"
  defines "secs \<equiv> h * 3600 + mi * 60 + s"
  shows "0 \<le> secs" "secs < 86400" "0 \<le> us" "us < 1000000"
    "secs div 3600 = h" "secs mod 3600 div 60 = mi" "secs mod 3600 mod 60 = s"
proof -
  from assms(1) have t: "0 \<le> h" "h \<le> 23" "0 \<le> mi" "mi \<le> 59" "0 \<le> s" "s \<le> 59"
    "0 \<le> us" "us \<le> 999999"
    by (simp_all add: check_time_fields_def)
  show "0 \<le> secs" "secs < 86400" "0 \<le> us" "us < 1000000" using t by (simp_all add: secs_def)
  define r where "r = mi * 60 + s"
  have r: "0 \<le> r" "r < 3600" using t by (simp_all add: r_def)
  have e: "secs = 3600 * h + r" by (simp add: secs_def r_def)
  show "secs div 3600 = h" using e r by (rule int_div_pos_eq)
  have m: "secs mod 3600 = r" using e r by (rule int_mod_pos_eq)
  have e2: "r = 60 * mi + s" by (simp add: r_def)
  have s': "0 \<le> s" "s < 60" using t by simp_all
  have "r div 60 = mi" using e2 s' by (rule int_div_pos_eq)
  then show "secs mod 3600 div 60 = mi" by (simp only: m)
  have "r mod 60 = s" using e2 s' by (rule int_mod_pos_eq)
  then show "secs mod 3600 mod 60 = s" by (simp only: m)
qed

lemma datetime_add_days:
  assumes "valid_datetime dt"
  shows "datetime_add dt \<lparr>days = k, seconds = 0, microseconds = 0\<rparr> =
           (if 0 < toordinal dt + k \<and> toordinal dt + k \<le> MAXORDINAL
            then (case ord2ymd (toordinal dt + k) of
                    (y, m, d) \<Rightarrow> Inr (dt\<lparr>year := y, month := m, day := d\<rparr>))
            else Inl OverflowError)"
proof -
  define secs where "secs = hour dt * 3600 + minute dt * 60 + second dt"
  from assms have c: "check_time_fields (hour dt) (minute dt) (second dt) (microsecond dt)"
    by (simp add: valid_datetime_def)
  note tod = time_of_day [OF c, folded secs_def]
  have o: "\<not> \<bar>toordinal dt\<bar> > 999999999" using toordinal_bounds [OF assms] by simp
  have t1: "timedelta_of (toordinal dt) secs (microsecond dt)
            = Inr \<lparr>days = toordinal dt, seconds = secs, microseconds = microsecond dt\<rparr>"
    using o by (simp add: timedelta_of_in_day [OF tod(1-4)])
  have t2: "timedelta_of (toordinal dt + k) secs (microsecond dt)
            = (if \<bar>toordinal dt + k\<bar> > 999999999 then Inl OverflowError
               else Inr \<lparr>days = toordinal dt + k, seconds = secs, microseconds = microsecond dt\<rparr>)"
    by (rule timedelta_of_in_day [OF tod(1-4)])
  have big: "\<bar>toordinal dt + k\<bar> > 999999999
             \<Longrightarrow> \<not> (0 < toordinal dt + k \<and> toordinal dt + k \<le> MAXORDINAL)"
    unfolding MAXORDINAL_def by linarith
  have rec: "\<lparr>year = y, month = m, day = d, hour = hour dt, minute = minute dt,
               second = second dt, microsecond = microsecond dt, tzinfo = tzinfo dt\<rparr>
             = dt\<lparr>year := y, month := m, day := d\<rparr>" for y m d
    by (cases dt) simp
  show ?thesis
  proof (cases "\<bar>toordinal dt + k\<bar> > 999999999")
    case True
    with big [OF True] show ?thesis
      unfolding datetime_add_def secs_def [symmetric] by (auto simp add: t1 t2)
  next
    case False
    then show ?thesis
      unfolding datetime_add_def secs_def [symmetric]
      by (simp add: t1 t2 Let_def tod(5-7) rec split: prod.splits)
  qed
qed


lemma julian_day_unfold:
  assumes "valid_time dt"
  shows "julian_day dt =
           (if \<bar>toordinal dt - 1\<bar> > 999999999 then Inl OverflowError
            else if tzinfo dt = None then Inr (toordinal dt - 1 + 1721426)
            else Inl TypeError)"
proof -
  define secs where "secs = hour dt * 3600 + minute dt * 60 + second dt"
  note tod = time_of_day [OF assms [unfolded valid_time_def], folded secs_def]
  have secs': "second dt + minute dt * 60 + hour dt * 3600 = secs" by (simp add: secs_def)
  have one: "ymd2ord 1 1 1 = 1"
    by (simp add: ymd2ord_def days_before_year_def days_before_month_def DAYS_BEFORE_MONTH_def)
  note td = timedelta_of_in_day [OF tod(1-4), of "toordinal dt - 1"]
  show ?thesis
    by (cases "tzinfo dt")
       (simp_all add: julian_day_def datetime_sub_def datetime_1_1_1_def Let_def toordinal_def
         one secs' td [unfolded toordinal_def])
qed

lemma toordinal_same_date: "same_date a b \<Longrightarrow> toordinal a = toordinal b"
  by (simp add: same_date_def toordinal_def)

lemma date_only_daily: "date_only interval_daily"
  by (simp add: date_only_def interval_daily_def same_date_def)

lemma date_only_weekly: "date_only interval_weekly"
  by (simp add: date_only_def interval_weekly_def isocalendar_def same_date_def)

lemma date_only_monthly: "date_only interval_monthly"
  by (simp add: date_only_def interval_monthly_def same_date_def)

lemma date_only_biyearly: "date_only interval_biyearly"
  by (simp add: date_only_def interval_biyearly_def same_date_def)

lemma date_only_yearly: "date_only interval_yearly"
  by (simp add: date_only_def interval_yearly_def same_date_def)

lemma date_only_custom: "date_only (interval_custom n)"
  unfolding date_only_def
proof (intro allI impI)
  fix a b
  assume h: "valid_time a \<and> valid_time b \<and> same_date a b \<and> same_kind a b"
  then have "toordinal a = toordinal b" "(tzinfo a = None) = (tzinfo b = None)"
    by (simp_all add: toordinal_same_date same_kind_def)
  with h have "julian_day a = julian_day b"
    by (simp add: julian_day_unfold)
  then show "interval_custom n a = interval_custom n b"
    by (simp add: interval_custom_def)
qed

lemma INTERVALS_cases:
  assumes "INTERVALS s = Some iv"
  shows "iv = interval_daily \<or> iv = interval_weekly \<or> iv = interval_monthly
         \<or> iv = interval_biyearly \<or> iv = interval_yearly"
  using assms by (auto simp add: INTERVALS_def split: if_splits)

lemma interval_from_string_cases:
  assumes "interval_from_string s = Some iv"
  shows "iv = interval_daily \<or> iv = interval_weekly \<or> iv = interval_monthly
         \<or> iv = interval_biyearly \<or> iv = interval_yearly \<or> (\<exists>n. 0 < n \<and> iv = interval_custom n)"
proof (cases "INTERVALS (strip s)")
  case (Some i)
  with assms have "iv = i" by (simp add: interval_from_string_def Let_def)
  with INTERVALS_cases [OF Some] show ?thesis by blast
next
  case None
  with assms show ?thesis
    by (auto simp add: interval_from_string_def Let_def split: option.splits if_splits)
qed

lemma date_only_scheme:
  assumes "interval_from_string s = Some iv"
  shows "date_only iv"
  using interval_from_string_cases [OF assms]
  by (auto simp add: date_only_daily date_only_weekly date_only_monthly date_only_biyearly
      date_only_yearly date_only_custom)


lemma valid_datetime_time: "valid_datetime dt \<Longrightarrow> valid_time dt"
  by (simp add: valid_datetime_def valid_time_def)

lemma shifted_key_date_only:
  assumes iv: "date_only iv"
    and a: "valid_datetime a" and b: "valid_datetime b"
    and sd: "same_date a b" and sk: "same_kind a b"
  shows "(case datetime_add a \<lparr>days = k, seconds = 0, microseconds = 0\<rparr> of
            Inl e \<Rightarrow> Inl e | Inr x \<Rightarrow> iv x)
       = (case datetime_add b \<lparr>days = k, seconds = 0, microseconds = 0\<rparr> of
            Inl e \<Rightarrow> Inl e | Inr x \<Rightarrow> iv x)"
proof -
  have o: "toordinal a = toordinal b" using sd by (rule toordinal_same_date)
  show ?thesis
  proof (cases "0 < toordinal b + k \<and> toordinal b + k \<le> MAXORDINAL")
    case False
    then show ?thesis by (auto simp add: datetime_add_days [OF a] datetime_add_days [OF b] o)
  next
    case True
    obtain y m d where ymd: "ord2ymd (toordinal b + k) = (y, m, d)"
      by (cases "ord2ymd (toordinal b + k)") auto
    let ?a = "a\<lparr>year := y, month := m, day := d\<rparr>"
    let ?b = "b\<lparr>year := y, month := m, day := d\<rparr>"
    have "valid_time ?a" "valid_time ?b"
      using valid_datetime_time [OF a] valid_datetime_time [OF b] by (simp_all add: valid_time_def)
    moreover have "same_date ?a ?b" by (simp add: same_date_def)
    moreover have "same_kind ?a ?b" using sk by (simp add: same_kind_def)
    ultimately have "iv ?a = iv ?b" using iv unfolding date_only_def by blast
    with True ymd show ?thesis
      by (simp add: datetime_add_days [OF a] datetime_add_days [OF b] o)
  qed
qed

lemma covering_date_only:
  assumes iv: "date_only iv" and l: "list_all2 alike snaps snaps'"
  shows "creates (covering iv \<lparr>days = k, seconds = 0, microseconds = 0\<rparr> key snaps)
       = creates (covering iv \<lparr>days = k, seconds = 0, microseconds = 0\<rparr> key snaps')"
  using l
proof (induction rule: list_all2_induct)
  case Nil
  show ?case by simp
next
  case (Cons s ss s' ss')
  from Cons.hyps(1) have v: "valid_datetime (when_dt s)" "valid_datetime (when_dt s')"
    and sd: "same_date (when_dt s) (when_dt s')" and sk: "same_kind (when_dt s) (when_dt s')"
    by (simp_all add: alike_def)
  note eq = shifted_key_date_only [OF iv v sd sk, of k]
  show ?case
  proof (cases "datetime_add (when_dt s) \<lparr>days = k, seconds = 0, microseconds = 0\<rparr>")
    case (Inl e)
    with eq show ?thesis
      by (auto simp add: creates_def split: sum.splits)
  next
    case (Inr x)
    with eq Cons.IH show ?thesis
      by (auto simp add: creates_def split: sum.splits)
  qed
qed

lemma coverage_check_date_only:
  assumes iv: "date_only iv" and l: "list_all2 alike snaps snaps'"
    and a: "valid_datetime now" and b: "valid_datetime now'"
    and sd: "same_date now now'" and sk: "same_kind now now'"
  shows "creates (coverage_check iv \<lparr>days = k, seconds = 0, microseconds = 0\<rparr> now snaps)
       = creates (coverage_check iv \<lparr>days = k, seconds = 0, microseconds = 0\<rparr> now' snaps')"
proof -
  note eq = shifted_key_date_only [OF iv a b sd sk, of k]
  note cv = covering_date_only [OF iv l, of k]
  show ?thesis
  proof (cases "datetime_add now \<lparr>days = k, seconds = 0, microseconds = 0\<rparr>")
    case (Inl e)
    with eq show ?thesis
      by (auto simp add: coverage_check_def creates_def split: sum.splits)
  next
    case (Inr x)
    with eq cv show ?thesis
      by (auto simp add: coverage_check_def split: sum.splits)
  qed
qed


text \<open>
  C8. For every positive \<open>n\<close> and every (naive) timestamp \<open>t\<close>, the key of \<open>t\<close>
  under the custom scheme of \<open>n\<close> days is \<open>J div n\<close>, where \<open>J\<close> is the number of
  days from 0001-01-01 to the date of \<open>t\<close> plus 1721426; day 1 of the proleptic
  Gregorian calendar has \<open>J = 1721426\<close>.
\<close>

theorem C8_custom_interval_key:
  assumes "0 < n" and "valid_datetime t" and "tzinfo t = None"
  shows "interval_custom n t
           = Inr (Key_int ((toordinal t - toordinal datetime_1_1_1 + 1721426) div n))
       \<and> julian_day datetime_1_1_1 = Inr 1721426"
proof -
  have one: "toordinal datetime_1_1_1 = 1"
    by (simp add: toordinal_def datetime_1_1_1_def ymd2ord_def days_before_year_def
        days_before_month_def DAYS_BEFORE_MONTH_def)
  have v: "valid_datetime datetime_1_1_1"
    by (simp add: valid_datetime_def datetime_1_1_1_def check_date_fields_def
        check_time_fields_def check_utc_offset_def days_in_month_def DAYS_IN_MONTH_def)
  have n: "tzinfo datetime_1_1_1 = None" by (simp add: datetime_1_1_1_def)
  have "julian_day datetime_1_1_1 = Inr 1721426"
    using julian_day_naive [OF v n] by (simp add: one)
  moreover have "interval_custom n t
           = Inr (Key_int ((toordinal t - toordinal datetime_1_1_1 + 1721426) div n))"
    using assms(1) by (simp add: interval_custom_def julian_day_naive [OF assms(2,3)] one)
  ultimately show ?thesis by simp
qed

theorem C8_custom_interval_key_witness:
  "interval_custom 30 \<lparr>year = 2024, month = 3, day = 30, hour = 7, minute = 8, second = 0,
                       microsecond = 0, tzinfo = None\<rparr> = Inr (Key_int 82013)"
proof -
  let ?t = "\<lparr>year = 2024, month = 3, day = 30, hour = 7, minute = 8, second = 0,
              microsecond = 0, tzinfo = None\<rparr>"
  have v: "valid_datetime ?t"
    by (simp add: valid_datetime_def check_date_fields_def check_time_fields_def
        check_utc_offset_def days_in_month_def DAYS_IN_MONTH_def)
  have o: "toordinal ?t = 738975" "toordinal datetime_1_1_1 = 1"
    by (simp_all add: toordinal_def datetime_1_1_1_def ymd2ord_def days_before_year_def
        days_before_month_def DAYS_BEFORE_MONTH_def is_leap_def)
  have "(0::int) < 30" by simp
  from C8_custom_interval_key [OF this v] show ?thesis by (simp add: o)
qed

text \<open>
  C10. Under each of the six schemes, two timestamps of the same calendar date
  (of the same kind, naive or aware) have the same bucket key. Hence the
  coverage decision for a scheme that \<open>interval_from_string\<close> returns and an offset
  of whole days is the same for two runs whose current times fall on the same
  date and whose snapshots fall pairwise on the same dates: hours and minutes
  play no part.
\<close>

theorem C10_date_only:
  assumes "valid_datetime t1" and "valid_datetime t2" and "same_date t1 t2" and "same_kind t1 t2"
    and "interval_from_string s = Some iv" and "timedelta_of k 0 0 = Inr off"
    and "valid_datetime now" and "valid_datetime now'"
    and "same_date now now'" and "same_kind now now'"
    and "list_all2 alike snaps snaps'"
  shows "interval_daily t1 = interval_daily t2
       \<and> interval_weekly t1 = interval_weekly t2
       \<and> interval_monthly t1 = interval_monthly t2
       \<and> interval_biyearly t1 = interval_biyearly t2
       \<and> interval_yearly t1 = interval_yearly t2
       \<and> interval_custom n t1 = interval_custom n t2
       \<and> creates (coverage_check iv off now snaps) = creates (coverage_check iv off now' snaps')"
proof -
  have t: "valid_time t1 \<and> valid_time t2 \<and> same_date t1 t2 \<and> same_kind t1 t2"
    using assms(1-4) by (simp add: valid_datetime_time)
  have k: "\<And>f. date_only f \<Longrightarrow> f t1 = f t2"
    using t unfolding date_only_def by blast
  have off: "off = \<lparr>days = k, seconds = 0, microseconds = 0\<rparr>"
    using assms(6) by (simp add: timedelta_of_days split: if_splits)
  have c: "creates (coverage_check iv off now snaps) = creates (coverage_check iv off now' snaps')"
    unfolding off
    using date_only_scheme [OF assms(5)] assms(11,7-10) by (rule coverage_check_date_only)
  show ?thesis
    using c k [OF date_only_daily] k [OF date_only_weekly] k [OF date_only_monthly]
      k [OF date_only_biyearly] k [OF date_only_yearly] k [OF date_only_custom]
    by simp
qed

theorem C10_date_only_witness:
  "interval_weekly \<lparr>year = 2024, month = 3, day = 27, hour = 10, minute = 0, second = 0,
                    microsecond = 0, tzinfo = None\<rparr>
     = interval_weekly \<lparr>year = 2024, month = 3, day = 27, hour = 23, minute = 59, second = 59,
                        microsecond = 999999, tzinfo = None\<rparr>
   \<and> creates (coverage_check interval_monthly \<lparr>days = 5, seconds = 0, microseconds = 0\<rparr>
        \<lparr>year = 2024, month = 3, day = 27, hour = 10, minute = 0, second = 0,
         microsecond = 0, tzinfo = None\<rparr>
        [\<lparr>path = [''s'', ''2024-03-30 00:00''],
          when_dt = \<lparr>year = 2024, month = 3, day = 30, hour = 0, minute = 0, second = 0,
                     microsecond = 0, tzinfo = None\<rparr>\<rparr>])
     = creates (coverage_check interval_monthly \<lparr>days = 5, seconds = 0, microseconds = 0\<rparr>
        \<lparr>year = 2024, month = 3, day = 27, hour = 23, minute = 59, second = 59,
         microsecond = 999999, tzinfo = None\<rparr>
        [\<lparr>path = [''s'', ''2024-03-30 12:30''],
          when_dt = \<lparr>year = 2024, month = 3, day = 30, hour = 12, minute = 30, second = 0,
                     microsecond = 0, tzinfo = None\<rparr>\<rparr>])"
proof -
  let ?t1 = "\<lparr>year = 2024, month = 3, day = 27, hour = 10, minute = 0, second = 0,
               microsecond = 0, tzinfo = None\<rparr>"
  let ?t2 = "\<lparr>year = 2024, month = 3, day = 27, hour = 23, minute = 59, second = 59,
               microsecond = 999999, tzinfo = None\<rparr>"
  let ?s1 = "\<lparr>path = [''s'', ''2024-03-30 00:00''],
          when_dt = \<lparr>year = 2024, month = 3, day = 30, hour = 0, minute = 0, second = 0,
                     microsecond = 0, tzinfo = None\<rparr>\<rparr>"
  let ?s2 = "\<lparr>path = [''s'', ''2024-03-30 12:30''],
          when_dt = \<lparr>year = 2024, month = 3, day = 30, hour = 12, minute = 30, second = 0,
                     microsecond = 0, tzinfo = None\<rparr>\<rparr>"
  note ev = valid_datetime_def check_date_fields_def check_time_fields_def
        check_utc_offset_def days_in_month_def DAYS_IN_MONTH_def
  have v: "valid_datetime ?t1" "valid_datetime ?t2" by (simp_all add: ev)
  have sd: "same_date ?t1 ?t2" by (simp add: same_date_def)
  have sk: "same_kind ?t1 ?t2" by (simp add: same_kind_def)
  have iv: "interval_from_string ''monthly'' = Some interval_monthly"
    by (simp add: interval_from_string_def strip_def strip_chars_def isspace_def INTERVALS_def)
  have off: "timedelta_of 5 0 0 = Inr \<lparr>days = 5, seconds = 0, microseconds = 0\<rparr>"
    by (simp add: timedelta_of_def)
  have l: "list_all2 alike [?s1] [?s2]"
    by (simp add: alike_def ev same_date_def same_kind_def)
  from C10_date_only [OF v sd sk iv off v sd sk l] show ?thesis by simp
qed

subsection \<open>Resolving interval strings\<close>

lemma digit_char_props:
  assumes "0 \<le> k" "k < 10"
  shows "is_digit (digit_char k)" "digit_val (digit_char k) = k"
    "\<not> isspace (digit_char k)" "\<not> int_blank (digit_char k)"
    "digit_char k \<noteq> CHR ''_''" "digit_char k \<noteq> CHR ''-''" "digit_char k \<noteq> CHR ''+''"
proof -
  have k: "k = 0 \<or> k = 1 \<or> k = 2 \<or> k = 3 \<or> k = 4 \<or> k = 5 \<or> k = 6 \<or> k = 7 \<or> k = 8 \<or> k = 9"
    using assms by arith
  show "is_digit (digit_char k)" using k by (auto simp add: is_digit_def digit_char_def)
  show "digit_val (digit_char k) = k" using k by (auto simp add: digit_val_def digit_char_def)
  show "\<not> isspace (digit_char k)" using k by (auto simp add: isspace_def digit_char_def)
  show "\<not> int_blank (digit_char k)" using k by (auto simp add: int_blank_def digit_char_def)
  have nd: "\<not> is_digit CHR ''_''" "\<not> is_digit CHR ''-''" "\<not> is_digit CHR ''+''"
    by (simp_all add: is_digit_def)
  have d: "is_digit (digit_char k)" using k by (auto simp add: is_digit_def digit_char_def)
  show "digit_char k \<noteq> CHR ''_''" using d nd by metis
  show "digit_char k \<noteq> CHR ''-''" using d nd by metis
  show "digit_char k \<noteq> CHR ''+''" using d nd by metis
qed

lemma int_digits_run:
  assumes "list_all is_digit xs" "xs \<noteq> []"
  shows "int_digits acc f (xs @ ys) = int_digits (digits_value acc xs) True ys"
  using assms
proof (induction xs arbitrary: acc f)
  case Nil
  then show ?case by simp
next
  case (Cons c cs)
  show ?case
  proof (cases "cs = []")
    case True
    with Cons.prems show ?thesis by (simp add: digits_value_def)
  next
    case False
    with Cons show ?thesis by (simp add: digits_value_def)
  qed
qed

lemma decimal_digits:
  "list_all is_digit (decimal n) \<and> decimal n \<noteq> [] \<and> digits_value 0 (decimal n) = int n"
proof (induction n rule: decimal.induct)
  case (1 n)
  show ?case
  proof (cases "n < 10")
    case True
    then have k: "0 \<le> int n" "int n < 10" by simp_all
    from True have d: "decimal n = [digit_char (int n)]" by (simp add: decimal.simps)
    show ?thesis by (simp add: d digit_char_props [OF k] digits_value_def)
  next
    case False
    then have d: "decimal n = decimal (n div 10) @ [digit_char (int (n mod 10))]"
      by (simp add: decimal.simps)
    have k: "0 \<le> int (n mod 10)" "int (n mod 10) < 10" by simp_all
    from 1 [OF False] have ih: "list_all is_digit (decimal (n div 10))"
      "digits_value 0 (decimal (n div 10)) = int (n div 10)" by simp_all
    have "int (n div 10) * 10 + int (n mod 10) = int n"
      by (simp add: of_nat_div of_nat_mod)
    then show ?thesis
      by (simp add: d ih digit_char_props [OF k] digits_value_def
          ih(2) [unfolded digits_value_def])
  qed
qed

lemma is_digit_not_special:
  assumes "is_digit c"
  shows "\<not> isspace c" "\<not> int_blank c" "c \<noteq> CHR ''-''" "c \<noteq> CHR ''+''" "c \<noteq> CHR ''_''"
proof -
  show "\<not> isspace c" using assms by (auto simp add: is_digit_def isspace_def Let_def)
  show "\<not> int_blank c" using assms by (auto simp add: is_digit_def int_blank_def Let_def)
  have "\<not> is_digit CHR ''_''" "\<not> is_digit CHR ''-''" "\<not> is_digit CHR ''+''"
    by (simp_all add: is_digit_def)
  with assms show "c \<noteq> CHR ''-''" "c \<noteq> CHR ''+''" "c \<noteq> CHR ''_''" by metis+
qed

lemma strip_chars_id:
  assumes "s \<noteq> []" "\<not> Q (hd s)" "\<not> Q (last s)"
  shows "strip_chars Q s = s"
proof -
  have a: "dropWhile Q s = s" using assms(1,2) by (cases s) simp_all
  have "rev s \<noteq> []" "\<not> Q (hd (rev s))" using assms(1,3) by (simp_all add: hd_rev)
  then have b: "dropWhile Q (rev s) = rev s" by (cases "rev s") simp_all
  show ?thesis by (simp add: strip_chars_def a b)
qed

lemma py_int_digits:
  assumes "parse_digits ds = Some n" and "length ds \<le> MAX_STR_DIGITS"
  shows "py_int ds = Some n"
proof -
  from assms have ne: "ds \<noteq> []" and all: "list_all is_digit ds"
    and n: "n = digits_value 0 ds"
    by (auto simp add: parse_digits_def digits_value_def split: if_splits)
  from ne all have h: "is_digit (hd ds)" "is_digit (last ds)"
    by (auto simp add: list_all_iff)
  have st: "strip_chars int_blank ds = ds"
    using ne is_digit_not_special(2) [OF h(1)] is_digit_not_special(2) [OF h(2)]
    by (rule strip_chars_id)
  obtain c cs where ds: "ds = c # cs" using ne by (cases ds) auto
  with h(1) have c: "is_digit c" by simp
  have "length (filter is_digit ds) \<le> length ds" by (rule length_filter_le)
  with assms(2) have lim: "\<not> length (filter is_digit ds) > MAX_STR_DIGITS" by linarith
  have "int_digits 0 False (ds @ []) = int_digits (digits_value 0 ds) True []"
    using all ne by (rule int_digits_run)
  then have "int_digits 0 False (c # cs) = Some n" by (simp add: n ds)
  then show ?thesis
    using is_digit_not_special(3,4) [OF c] lim
    by (simp add: py_int_def st ds [symmetric]) (simp add: ds)
qed

lemma INTERVALS_Some:
  assumes "INTERVALS s = Some iv"
  shows "(s = ''daily'' \<and> iv = interval_daily) \<or> (s = ''weekly'' \<and> iv = interval_weekly)
       \<or> (s = ''monthly'' \<and> iv = interval_monthly) \<or> (s = ''biyearly'' \<and> iv = interval_biyearly)
       \<or> (s = ''yearly'' \<and> iv = interval_yearly)"
  using assms by (auto simp add: INTERVALS_def split: if_splits)

lemma INTERVALS_digit:
  assumes "s \<noteq> []" "is_digit (hd s)"
  shows "INTERVALS s = None"
proof (rule ccontr)
  assume "INTERVALS s \<noteq> None"
  then obtain iv where "INTERVALS s = Some iv" by auto
  from INTERVALS_Some [OF this]
  have "hd s = CHR ''d'' \<or> hd s = CHR ''w'' \<or> hd s = CHR ''m'' \<or> hd s = CHR ''b''
        \<or> hd s = CHR ''y''"
    by auto
  moreover have "\<not> is_digit CHR ''d''" "\<not> is_digit CHR ''w''" "\<not> is_digit CHR ''m''"
    "\<not> is_digit CHR ''b''" "\<not> is_digit CHR ''y''"
    by (simp_all add: is_digit_def)
  ultimately show False using assms(2) by metis
qed

lemma INTERVALS_names:
  "INTERVALS ''daily'' = Some interval_daily" "INTERVALS ''weekly'' = Some interval_weekly"
  "INTERVALS ''monthly'' = Some interval_monthly" "INTERVALS ''biyearly'' = Some interval_biyearly"
  "INTERVALS ''yearly'' = Some interval_yearly"
  by (simp_all add: INTERVALS_def)

lemma strip_names:
  "strip ''daily'' = ''daily''" "strip ''weekly'' = ''weekly''" "strip ''monthly'' = ''monthly''"
  "strip ''biyearly'' = ''biyearly''" "strip ''yearly'' = ''yearly''"
  by (simp_all add: strip_def strip_chars_def isspace_def)

lemma strip_chars_idem: "strip_chars Q (strip_chars Q s) = strip_chars Q s"
proof -
  define u where "u = dropWhile Q s"
  define t where "t = rev (dropWhile Q (rev u))"
  have u: "u = [] \<or> \<not> Q (hd u)" unfolding u_def using hd_dropWhile [of Q s] by blast
  have "rev (takeWhile Q (rev u) @ dropWhile Q (rev u)) = u"
    by (simp only: takeWhile_dropWhile_id rev_rev_ident)
  then have ut: "u = t @ rev (takeWhile Q (rev u))" by (simp only: rev_append t_def)
  have "t = [] \<or> \<not> Q (hd t)"
  proof (cases "t = []")
    case False
    with ut have "hd u = hd t" "u \<noteq> []" by (metis hd_append2, metis append_is_Nil_conv)
    with u show ?thesis by simp
  qed simp
  then have a: "dropWhile Q t = t" by (simp add: dropWhile_eq_self_iff)
  have b: "dropWhile Q (rev t) = rev t" by (simp add: t_def)
  show ?thesis by (simp add: strip_chars_def u_def [symmetric] t_def [symmetric] a b)
qed

lemma strip_idem: "strip (strip s) = strip s"
  by (simp add: strip_def strip_chars_idem)

lemma spec_scheme_resolved:
  assumes "spec_resolve_scheme s \<noteq> None" and lim: "length (butlast s) \<le> MAX_STR_DIGITS"
  shows "interval_from_string s = spec_resolve_scheme s"
proof -
  consider "s = ''daily''" | "s = ''weekly''" | "s = ''monthly''" | "s = ''biyearly''"
    | "s = ''yearly''"
    | n where "s \<noteq> []" "last s = CHR ''d''" "parse_digits (butlast s) = Some n" "n > 0"
       "spec_resolve_scheme s = Some (interval_custom n)"
    using assms(1) by (auto simp add: spec_resolve_scheme_def split: if_splits option.splits)
  then show ?thesis
  proof cases
    case 6
    from 6(3) have ne: "butlast s \<noteq> []" and all: "list_all is_digit (butlast s)"
      by (auto simp add: parse_digits_def split: if_splits)
    have hd: "hd s = hd (butlast s)" using ne 6(1) by (cases s) auto
    from ne all have "is_digit (hd (butlast s))" by (auto simp add: list_all_iff)
    then have d: "is_digit (hd s)" by (simp add: hd)
    have "\<not> isspace (CHR ''d'')" by (simp add: isspace_def)
    then have st: "strip s = s"
      unfolding strip_def
      using 6(1) is_digit_not_special(1) [OF d] 6(2) by (intro strip_chars_id) simp_all
    have "days_from_string s = Some n"
      using 6(1,2) py_int_digits [OF 6(3) lim] by (simp add: days_from_string_def st)
    then show ?thesis
      using 6(4,5) INTERVALS_digit [OF 6(1) d] by (simp add: interval_from_string_def st)
  qed (simp_all add: interval_from_string_def strip_names INTERVALS_names spec_resolve_scheme_def)
qed

lemma int_digits_has_digit:
  assumes "int_digits acc False cs = Some n"
  shows "\<exists>c\<in>set cs. is_digit c"
  using assms by (cases cs) (auto split: if_splits)

lemma set_strip_chars: "set (strip_chars Q u) \<subseteq> set u"
proof -
  have "set (dropWhile Q (rev (dropWhile Q u))) \<subseteq> set (rev (dropWhile Q u))"
    by (auto dest: set_dropWhileD)
  moreover have "set (dropWhile Q u) \<subseteq> set u" by (auto dest: set_dropWhileD)
  ultimately show ?thesis by (auto simp add: strip_chars_def)
qed

lemma py_int_has_digit:
  assumes "py_int u = Some n"
  shows "\<exists>c\<in>set u. is_digit c"
proof -
  obtain c cs where t: "strip_chars int_blank u = c # cs"
    using assms by (cases "strip_chars int_blank u") (auto simp add: py_int_def split: if_splits)
  have "\<exists>x\<in>set (c # cs). is_digit x"
  proof (cases "c = CHR ''-'' \<or> c = CHR ''+''")
    case True
    with assms t have "\<exists>k. int_digits 0 False cs = Some k"
      by (auto simp add: py_int_def split: if_splits)
    then show ?thesis using int_digits_has_digit by fastforce
  next
    case False
    with assms t have "int_digits 0 False (c # cs) = Some n"
      by (auto simp add: py_int_def split: if_splits)
    then show ?thesis by (rule int_digits_has_digit)
  qed
  with set_strip_chars [of int_blank u] t show ?thesis by (metis subsetD)
qed

lemma names_no_digit:
  assumes "INTERVALS s = Some iv"
  shows "\<forall>c\<in>set s. \<not> is_digit c"
  using INTERVALS_Some [OF assms] by (elim disjE) (simp_all add: is_digit_def)

lemma int_forms_accepted:
  assumes "strip s \<noteq> []" and "last (strip s) = CHR ''d''"
    and "py_int (butlast (strip s)) = Some n" and "0 < n"
  shows "interval_from_string s = Some (interval_custom n)"
proof -
  from py_int_has_digit [OF assms(3)] obtain c
    where "c \<in> set (butlast (strip s))" "is_digit c" by blast
  then have "\<exists>c\<in>set (strip s). is_digit c" by (metis in_set_butlastD)
  then have "INTERVALS (strip s) = None"
    using names_no_digit [of "strip s"] by (cases "INTERVALS (strip s)") auto
  then show ?thesis
    using assms by (simp add: interval_from_string_def days_from_string_def strip_idem)
qed

lemma names_accepted:
  assumes "INTERVALS (strip s) = Some iv"
  shows "interval_from_string s = Some iv"
  using assms by (simp add: interval_from_string_def)

lemma interval_from_string_iff:
  "(interval_from_string s = Some iv) =
     ((strip s = ''daily'' \<and> iv = interval_daily) \<or> (strip s = ''weekly'' \<and> iv = interval_weekly)
      \<or> (strip s = ''monthly'' \<and> iv = interval_monthly)
      \<or> (strip s = ''biyearly'' \<and> iv = interval_biyearly)
      \<or> (strip s = ''yearly'' \<and> iv = interval_yearly)
      \<or> (\<exists>n. 0 < n \<and> iv = interval_custom n \<and> strip s \<noteq> [] \<and> last (strip s) = CHR ''d''
             \<and> py_int (butlast (strip s)) = Some n))"
  (is "?L = ?R")
proof
  assume l: ?L
  show ?R
  proof (cases "INTERVALS (strip s)")
    case (Some i)
    with l have "iv = i" by (simp add: interval_from_string_def Let_def)
    with INTERVALS_Some [OF Some] show ?thesis by blast
  next
    case None
    with l show ?thesis
      by (auto simp add: interval_from_string_def days_from_string_def Let_def strip_idem
          split: option.splits if_splits)
  qed
next
  assume r: ?R
  then consider (name) "INTERVALS (strip s) = Some iv"
    | (custom) n where "0 < n" "iv = interval_custom n" "strip s \<noteq> []"
        "last (strip s) = CHR ''d''" "py_int (butlast (strip s)) = Some n"
    using INTERVALS_names by (elim disjE exE conjE) simp_all
  then show ?L
  proof cases
    case name
    then show ?thesis by (rule names_accepted)
  next
    case custom
    from int_forms_accepted [OF custom(3,4,5,1)] custom(2) show ?thesis by simp
  qed
qed


lemmas string_eval = interval_from_string_def days_from_string_def py_int_def strip_def
  strip_chars_def isspace_def int_blank_def is_digit_def digit_val_def INTERVALS_def
  spec_resolve_scheme_def parse_digits_def MAX_STR_DIGITS_def

text \<open>
  C7 (as the spec has it, refuted). The spec's \<open>resolve_scheme\<close> accepts the five
  names as spelled and a positive integer followed by \<open>d\<close>, and nothing else.
  \<open>interval_from_string\<close> also accepts a name with blanks around it, a number with
  a plus sign, and a number with an underscore between its digits.
\<close>

theorem C7_counterexample:
  "interval_from_string '' daily'' = Some interval_daily
   \<and> spec_resolve_scheme '' daily'' = None
   \<and> interval_from_string ''+5d'' = Some (interval_custom 5)
   \<and> spec_resolve_scheme ''+5d'' = None
   \<and> interval_from_string ''1_0d'' = Some (interval_custom 10)
   \<and> spec_resolve_scheme ''1_0d'' = None"
  by (simp add: string_eval)

text \<open>
  C7 (amended). \<open>interval_from_string\<close> ignores surrounding whitespace. It accepts
  a string exactly when the stripped string is one of the five names as
  spelled, giving that scheme, or ends in \<open>d\<close> after a prefix that \<^verbatim>\<open>int()\<close>
  converts to a positive number \<open>n\<close>, giving the custom scheme of \<open>n\<close> days: plain
  decimal digits, and also a plus sign, blanks around the number and single
  underscores between digits, with at most 4300 digits. Every other string is
  invalid. Every string the spec's \<open>resolve_scheme\<close> accepts, of at most 4300
  digits, is resolved to the same scheme. \<^verbatim>\<open>0d\<close>, \<^verbatim>\<open>-5d\<close> and \<^verbatim>\<open>Daily\<close> are
  invalid; \<^verbatim>\<open>30d\<close> is the custom scheme of 30 days.
\<close>

theorem C7_resolve_scheme:
  "((interval_from_string s = Some iv) =
     ((strip s = ''daily'' \<and> iv = interval_daily) \<or> (strip s = ''weekly'' \<and> iv = interval_weekly)
      \<or> (strip s = ''monthly'' \<and> iv = interval_monthly)
      \<or> (strip s = ''biyearly'' \<and> iv = interval_biyearly)
      \<or> (strip s = ''yearly'' \<and> iv = interval_yearly)
      \<or> (\<exists>n. 0 < n \<and> iv = interval_custom n \<and> strip s \<noteq> [] \<and> last (strip s) = CHR ''d''
             \<and> py_int (butlast (strip s)) = Some n)))
   \<and> (spec_resolve_scheme s \<noteq> None \<and> length (butlast s) \<le> MAX_STR_DIGITS
        \<longrightarrow> interval_from_string s = spec_resolve_scheme s)
   \<and> interval_from_string (strip s) = interval_from_string s
   \<and> interval_from_string ''0d'' = None
   \<and> interval_from_string ''-5d'' = None
   \<and> interval_from_string ''Daily'' = None
   \<and> interval_from_string ''30d'' = Some (interval_custom 30)
   \<and> interval_from_string ''+7d'' = Some (interval_custom 7)
   \<and> interval_from_string ''2_0d'' = Some (interval_custom 20)
   \<and> interval_from_string ''5 d'' = Some (interval_custom 5)"
proof -
  note a = interval_from_string_iff [of s iv]
  have b: "spec_resolve_scheme s \<noteq> None \<and> length (butlast s) \<le> MAX_STR_DIGITS
        \<longrightarrow> interval_from_string s = spec_resolve_scheme s"
    using spec_scheme_resolved by blast
  have c: "interval_from_string (strip s) = interval_from_string s"
    by (simp add: interval_from_string_def strip_idem)
  have d: "interval_from_string ''0d'' = None" "interval_from_string ''-5d'' = None"
    "interval_from_string ''Daily'' = None"
    "interval_from_string ''30d'' = Some (interval_custom 30)"
    "interval_from_string ''+7d'' = Some (interval_custom 7)"
    "interval_from_string ''2_0d'' = Some (interval_custom 20)"
    "interval_from_string ''5 d'' = Some (interval_custom 5)"
    by (simp_all add: string_eval)
  from a b c d show ?thesis by blast
qed

text \<open>
  The theorem at \<^verbatim>\<open>" +1_2d "\<close>, which the characterisation accepts as the custom
  scheme of 12 days, and at \<^verbatim>\<open>30d\<close>, which the spec accepts.
\<close>

theorem C7_resolve_scheme_witness:
  "interval_from_string '' +1_2d '' = Some (interval_custom 12)
   \<and> spec_resolve_scheme ''30d'' \<noteq> None
   \<and> length (butlast ''30d'') \<le> MAX_STR_DIGITS
   \<and> interval_from_string ''30d'' = spec_resolve_scheme ''30d''"
proof -
  have r: "0 < (12::int) \<and> interval_custom 12 = interval_custom 12 \<and> strip '' +1_2d '' \<noteq> []
           \<and> last (strip '' +1_2d '') = CHR ''d''
           \<and> py_int (butlast (strip '' +1_2d '')) = Some 12"
    by (simp add: string_eval)
  have a: "interval_from_string '' +1_2d '' = Some (interval_custom 12)"
    using C7_resolve_scheme [of "'' +1_2d ''" "interval_custom 12"] r by blast
  have s: "spec_resolve_scheme ''30d'' \<noteq> None" "length (butlast ''30d'') \<le> MAX_STR_DIGITS"
    by (simp_all add: string_eval)
  have b: "interval_from_string ''30d'' = spec_resolve_scheme ''30d''"
    using C7_resolve_scheme [of "''30d''" "interval_custom 30"] s by blast
  from a s b show ?thesis by blast
qed

subsection \<open>Runs that end in an exception\<close>

text \<open>
  C6 (a defect of the code). The first of two sections sets \<^verbatim>\<open>amount = abc\<close>.
  \<^verbatim>\<open>section.getint\<close> raises \<^verbatim>\<open>ValueError\<close>, which nothing catches: no
  diagnostic names the section as skipped, the second section is never
  reached, and the run ends with a traceback.
\<close>

theorem C6_non_integer_amount:
  "read_section_options [''amount'' \<mapsto> Inr ''abc''] = ([], Inl ValueError)
   \<and> script real_run (quiet_world (\<lambda>_. Absent)) c6_options =
       ([Say (Msg_source_directory [''data'']),
         Say (Msg_snapshot_directory [''data-snapshots'']),
         Say (Msg_config_file [''data-snapshots'', ''rotate.conf'']),
         Say (Msg_time ''2024-01-03 09:00''), Say (Msg_dry_run False),
         Say (Msg_sections [''first'', ''second'']), Say Msg_blank,
         Say (Msg_section ''first'')],
        Traceback ValueError)"
proof -
  have a: "read_section_options [''amount'' \<mapsto> Inr ''abc''] = ([], Inl ValueError)"
    by (simp add: read_section_options_def bind_def return_def lift_def say_def getint_def
        get_def method_from_string_def interval_from_string_def days_from_string_def py_int_def
        strip_def strip_chars_def isspace_def int_blank_def is_digit_def digit_val_def
        INTERVALS_def MAX_STR_DIGITS_def)
  have b: "script real_run (quiet_world (\<lambda>_. Absent)) c6_options =
       ([Say (Msg_source_directory [''data'']),
         Say (Msg_snapshot_directory [''data-snapshots'']),
         Say (Msg_config_file [''data-snapshots'', ''rotate.conf'']),
         Say (Msg_time ''2024-01-03 09:00''), Say (Msg_dry_run False),
         Say (Msg_sections [''first'', ''second'']), Say Msg_blank,
         Say (Msg_section ''first'')],
        Traceback ValueError)"
    by code_simp
  from a b show ?thesis by (rule conjI)
qed

text \<open>
  C9 (a defect of the code). A section directory holds the sub-directories
  \<^verbatim>\<open>2024-01-01 00:00\<close> and \<^verbatim>\<open>2024-01-02 00:00+00:00\<close>. Both names parse, the
  first to a naive and the second to an aware datetime; sorting compares them
  and raises \<^verbatim>\<open>TypeError\<close>, so no list is returned.
\<close>

theorem C9_mixed_listing:
  "fromisoformat ''2024-01-01 00:00'' = Some (naive 2024 1 1 0 0)
   \<and> fromisoformat ''2024-01-02 00:00+00:00'' = Some ((naive 2024 1 2 0 0)\<lparr>tzinfo := Some 0\<rparr>)
   \<and> find_snapshots (quiet_world c9_fs) [''data-snapshots'', ''daily''] = ([], Inl TypeError)"
  by code_simp

text \<open>
  C3 (as the spec has it, refuted). Section \<^verbatim>\<open>first\<close> keeps one snapshot and
  holds two, and a file has the name of the new snapshot, so the creation
  fails. The claim says that the pruning of \<^verbatim>\<open>first\<close> and the section
  \<^verbatim>\<open>second\<close> still follow. In the run no command is issued after the failure
  and \<^verbatim>\<open>second\<close> is never announced.
\<close>

theorem C3_counterexample:
  "script real_run (quiet_world c3_fs) c3_options =
     ([Say (Msg_source_directory [''data'']),
       Say (Msg_snapshot_directory [''data-snapshots'']),
       Say (Msg_config_file [''data-snapshots'', ''rotate.conf'']),
       Say (Msg_time ''2024-01-03 09:00''), Say (Msg_dry_run False),
       Say (Msg_sections [''first'', ''second'']), Say Msg_blank,
       Say (Msg_section ''first''),
       Say (Msg_not_a_directory [''data-snapshots'', ''first'', ''2024-01-03 09:00'']),
       Say Msg_making_new],
      Operation_failed)"
  by code_simp

subsection \<open>The decision of a section\<close>

lemma bind_Inl: "bind (ev, Inl e) f = (ev, Inl e)"
  by (simp add: bind_def)

lemma bind_Inr: "bind (ev, Inr x) f = (ev @ fst (f x), snd (f x))"
  by (simp add: bind_def split: prod.splits)

lemma bind_return: "bind (return x) f = f x"
  by (simp add: bind_def return_def split: prod.splits)

lemma bind_nil: "bind ([], Inr x) f = f x"
  by (simp add: bind_def split: prod.splits)

lemma bind_say: "bind (say m) f = (Say m # fst (f ()), snd (f ()))"
  by (simp add: bind_def say_def split: prod.splits)

lemma bind_lift_Inr: "bind (lift (Inr x)) f = f x"
  by (simp add: bind_def lift_def split: prod.splits)

lemma bind_lift_Inl: "bind (lift (Inl e)) f = ([], Inl e)"
  by (simp add: bind_def lift_def)

lemma read_section_options_unfold:
  assumes "get sec ''method'' ''copy'' = Inr ms" and "get sec ''interval'' ''daily'' = Inr is"
    and "get sec ''offset'' ''0d'' = Inr os"
  shows "read_section_options sec =
     (let mm = method_from_string ms;
          mi = interval_from_string is;
          mo = days_from_string os;
          ev = (if mm = None then [Say Msg_invalid_method] else [])
               @ (if mi = None then [Say Msg_invalid_interval] else [])
               @ (if mo = None then [Say Msg_invalid_offset] else [])
      in case getint sec ''amount'' 7 of
           Inl e \<Rightarrow> (ev, Inl e)
         | Inr a \<Rightarrow>
             (ev @ (if a \<le> 0 then [Say Msg_invalid_amount] else []),
              Inr (case (mm, mi, mo) of
                     (Some m, Some i, Some off) \<Rightarrow>
                       if a \<le> 0 then None
                       else Some \<lparr>snapshot_method = m, interval = i, offset = off, amount = a\<rparr>
                   | _ \<Rightarrow> None)))"
  by (cases "getint sec ''amount'' 7")
     (simp_all add: read_section_options_def assms Let_def bind_say bind_return bind_lift_Inr
       bind_lift_Inl bind_nil return_def)

lemma read_section_options_gets:
  assumes "read_section_options sec = (ev, Inr r)"
  shows "\<exists>ms is os. get sec ''method'' ''copy'' = Inr ms \<and> get sec ''interval'' ''daily'' = Inr is
           \<and> get sec ''offset'' ''0d'' = Inr os"
proof -
  have a: "\<exists>ms. get sec ''method'' ''copy'' = Inr ms"
    using assms
    by (cases "get sec ''method'' ''copy''")
       (simp_all add: read_section_options_def bind_lift_Inl)
  then obtain ms where ms: "get sec ''method'' ''copy'' = Inr ms" by blast
  have b: "\<exists>is. get sec ''interval'' ''daily'' = Inr is"
    using assms
    by (cases "get sec ''interval'' ''daily''")
       (auto simp add: read_section_options_def ms Let_def bind_lift_Inl bind_lift_Inr bind_say
          bind_return split: if_splits)
  then obtain "is" where "is": "get sec ''interval'' ''daily'' = Inr is" by blast
  have c: "\<exists>os. get sec ''offset'' ''0d'' = Inr os"
    using assms
    by (cases "get sec ''offset'' ''0d''")
       (auto simp add: read_section_options_def ms "is" Let_def bind_lift_Inl bind_lift_Inr
          bind_say bind_return split: if_splits)
  from ms "is" c show ?thesis by blast
qed

lemma read_section_options_Some:
  assumes "read_section_options sec = (ev, Inr (Some so))"
  shows "ev = []" "0 < amount so"
    "\<exists>v. get sec ''method'' ''copy'' = Inr v \<and> method_from_string v = Some (snapshot_method so)"
    "\<exists>v. get sec ''interval'' ''daily'' = Inr v \<and> interval_from_string v = Some (interval so)"
    "\<exists>v. get sec ''offset'' ''0d'' = Inr v \<and> days_from_string v = Some (offset so)"
    "getint sec ''amount'' 7 = Inr (amount so)"
proof -
  from read_section_options_gets [OF assms] obtain ms "is" os
    where g: "get sec ''method'' ''copy'' = Inr ms" "get sec ''interval'' ''daily'' = Inr is"
      "get sec ''offset'' ''0d'' = Inr os" by blast
  note u = read_section_options_unfold [OF g]
  show "ev = []" "0 < amount so"
    "\<exists>v. get sec ''method'' ''copy'' = Inr v \<and> method_from_string v = Some (snapshot_method so)"
    "\<exists>v. get sec ''interval'' ''daily'' = Inr v \<and> interval_from_string v = Some (interval so)"
    "\<exists>v. get sec ''offset'' ''0d'' = Inr v \<and> days_from_string v = Some (offset so)"
    "getint sec ''amount'' 7 = Inr (amount so)"
    using assms
    by (auto simp add: u g Let_def split: sum.splits option.splits if_splits)
qed

lemma read_section_options_defaults:
  "read_section_options Map.empty =
     ([], Inr (Some \<lparr>snapshot_method = CopyMethod, interval = interval_daily, offset = 0,
                     amount = 7\<rparr>))"
proof -
  have g: "get Map.empty ''method'' ''copy'' = Inr ''copy''"
    "get Map.empty ''interval'' ''daily'' = Inr ''daily''"
    "get Map.empty ''offset'' ''0d'' = Inr ''0d''"
    by (simp_all add: get_def)
  show ?thesis
    by (simp add: read_section_options_unfold [OF g] Let_def getint_def method_from_string_def
        interval_from_string_def days_from_string_def py_int_def strip_def strip_chars_def
        isspace_def int_blank_def is_digit_def digit_val_def INTERVALS_def MAX_STR_DIGITS_def)
qed

lemma read_section_options_invalid:
  assumes "get sec ''method'' ''copy'' = Inr ms" and "get sec ''interval'' ''daily'' = Inr is"
    and "get sec ''offset'' ''0d'' = Inr os"
    and "getint sec ''amount'' 7 = Inr a"
    and "method_from_string ms = None \<or> interval_from_string is = None
         \<or> days_from_string os = None \<or> a \<le> 0"
  shows "\<exists>ev. read_section_options sec = (ev, Inr None) \<and> ev \<noteq> []
           \<and> set ev \<subseteq> {Say Msg_invalid_method, Say Msg_invalid_interval,
                         Say Msg_invalid_offset, Say Msg_invalid_amount}"
  using assms(4,5)
  by (auto simp add: read_section_options_unfold [OF assms(1-3)] Let_def split: option.splits)

lemma do_section_invalid:
  assumes "read_section_options (getitem (config options) name) = (ev, Inr None)"
  shows "do_section util world options name = (ev @ [Say Msg_section_skipped], Inr ())"
  using assms by (simp add: do_section_def bind_Inr say_def)

lemma do_section_raises:
  assumes "read_section_options (getitem (config options) name) = (ev, Inl e)"
  shows "do_section util world options name = (ev, Inl e)"
  using assms by (simp add: do_section_def bind_Inl)

lemma do_section_valid:
  assumes rs: "read_section_options (getitem (config options) name) = (ev0, Inr (Some so))"
    and off: "timedelta_of (offset so) 0 0 = Inr off"
    and fs: "find_snapshots world (snapshot_dir options @ [name]) = (ev1, Inr snaps)"
    and cc: "coverage_check (interval so) off (time options) snaps = Inr covered"
  shows "do_section util world options name =
     (case covered of
        Some s \<Rightarrow>
          (case remove_old util world (snapshot_method so) (amount so) snaps of
             (ev3, r) \<Rightarrow> (ev1 @ Say (Msg_already_covered (path s)) # ev3, r))
      | None \<Rightarrow>
          (case create_snapshot util world (snapshot_method so) (source_dir options)
                  (snapshot_dir options @ [name] @ [format_time (time options)]) of
             (ev2, Inl e) \<Rightarrow> (ev1 @ Say Msg_making_new # ev2, Inl e)
           | (ev2, Inr _) \<Rightarrow>
               (case remove_old util world (snapshot_method so) (amount so - 1) snaps of
                  (ev3, r) \<Rightarrow> (ev1 @ Say Msg_making_new # ev2 @ ev3, r))))"
proof -
  have e0: "ev0 = []" using rs by (rule read_section_options_Some(1))
  show ?thesis
    by (cases covered)
       (auto simp add: do_section_def rs e0 off fs cc Let_def bind_Inr bind_Inl bind_say
          bind_return bind_lift_Inr bind_nil return_def split: prod.splits sum.splits)
qed


lemma covering_Cons:
  "covering iv off k (s # rest) =
     (case bucket_key iv off (when_dt s) of
        Inl e \<Rightarrow> Inl e
      | Inr kk \<Rightarrow> if k = kk then Inr (Some s) else covering iv off k rest)"
  by (simp add: bucket_key_def split: sum.splits)

lemma covering_None:
  assumes "covering iv off k snaps = Inr None"
  shows "\<forall>s\<in>set snaps. \<exists>kk. bucket_key iv off (when_dt s) = Inr kk \<and> kk \<noteq> k"
  using assms
proof (induction snaps)
  case Nil
  show ?case by simp
next
  case (Cons s rest)
  then show ?case
    by (auto simp add: covering_Cons simp del: covering.simps split: sum.splits if_splits)
qed

lemma covering_Some:
  assumes "covering iv off k snaps = Inr (Some s)"
  shows "s \<in> set snaps \<and> bucket_key iv off (when_dt s) = Inr k"
  using assms
proof (induction snaps)
  case Nil
  then show ?case by simp
next
  case (Cons x rest)
  then show ?case
    by (auto simp add: covering_Cons simp del: covering.simps split: sum.splits if_splits)
qed

lemma coverage_check_now:
  assumes "coverage_check iv off now snaps = Inr c"
  shows "\<exists>k. bucket_key iv off now = Inr k \<and> covering iv off k snaps = Inr c"
  using assms by (auto simp add: coverage_check_def bucket_key_def split: sum.splits)

lemma coverage_check_iff:
  assumes "coverage_check iv off now snaps = Inr c"
  shows "(c = None) = (\<not> (\<exists>s\<in>set snaps. bucket_key iv off (when_dt s) = bucket_key iv off now))"
proof -
  from coverage_check_now [OF assms] obtain k
    where k: "bucket_key iv off now = Inr k" and cv: "covering iv off k snaps = Inr c" by blast
  show ?thesis
  proof (cases c)
    case None
    with covering_None [of iv off k snaps] cv k show ?thesis by fastforce
  next
    case (Some s)
    with covering_Some [of iv off k snaps s] cv k show ?thesis by fastforce
  qed
qed

lemma remove_old_prefix:
  assumes "0 \<le> limit"
  shows "\<exists>j. j \<le> nat (int (length snaps) - limit)
           \<and> fst (remove_old util world m limit snaps) = removals m (take j snaps)
           \<and> (snd (remove_old util world m limit snaps) = Inr ()
                \<longrightarrow> j = nat (int (length snaps) - limit))
           \<and> (snd (remove_old util world m limit snaps) \<noteq> Inr ()
                \<longrightarrow> snd (remove_old util world m limit snaps) = Inl OperationFailedException
                    \<and> 0 < j \<and> \<not> dry_run util
                    \<and> command_fails world (remove_command m (path (snaps ! (j - 1)))))"
  using assms
proof (induction snaps)
  case Nil
  then show ?case by (simp add: return_def removals_def)
next
  case (Cons s rest)
  show ?case
  proof (cases "int (length (s # rest)) > limit")
    case False
    then show ?thesis by (intro exI [of _ 0]) (simp add: return_def removals_def)
  next
    case big: True
    show ?thesis
    proof (cases "\<not> dry_run util \<and> command_fails world (remove_command m (path s))")
      case True
      with big show ?thesis
        by (intro exI [of _ 1])
           (auto simp add: remove_snapshot_def run_def removals_def)
    next
      case False
      from Cons.IH [OF Cons.prems] obtain j where j: "j \<le> nat (int (length rest) - limit)"
        "fst (remove_old util world m limit rest) = removals m (take j rest)"
        "snd (remove_old util world m limit rest) = Inr ()
                \<longrightarrow> j = nat (int (length rest) - limit)"
        "snd (remove_old util world m limit rest) \<noteq> Inr ()
                \<longrightarrow> snd (remove_old util world m limit rest) = Inl OperationFailedException
                    \<and> 0 < j \<and> \<not> dry_run util
                    \<and> command_fails world (remove_command m (path (rest ! (j - 1))))"
        by blast
      from False have ok: "remove_snapshot util world m (path s)
                            = ([Command (remove_command m (path s))], Inr ())"
        by (auto simp add: remove_snapshot_def run_def)
      have r: "remove_old util world m limit (s # rest)
               = (Command (remove_command m (path s)) # fst (remove_old util world m limit rest),
                  snd (remove_old util world m limit rest))"
        using big by (simp add: ok split: prod.splits)
      show ?thesis
        using j big Cons.prems
        by (intro exI [of _ "Suc j"]) (auto simp add: r removals_def simp del: remove_old.simps)
    qed
  qed
qed


lemma create_not_remove: "create_command m source target \<noteq> remove_command m' p"
  by (cases m; cases m') (simp_all add: create_command_def remove_command_def)

lemma create_command_inj:
  "create_command m source target = create_command m source target' \<Longrightarrow> target = target'"
  by (cases m) (simp_all add: create_command_def)

lemma insort_snapshot_mset:
  "insort_snapshot x ys = Inr zs \<Longrightarrow> mset zs = add_mset x (mset ys)"
proof (induction ys arbitrary: zs)
  case Nil
  then show ?case by auto
next
  case (Cons y ys)
  then show ?case
    by (auto split: sum.splits bool.splits if_splits)
qed

lemma sort_snapshots_mset: "sort_snapshots xs = Inr ys \<Longrightarrow> mset ys = mset xs"
proof (induction xs arbitrary: ys)
  case Nil
  then show ?case by simp
next
  case (Cons x xs)
  then show ?case
    by (auto split: sum.splits dest: insort_snapshot_mset)
qed

lemma scan_children_props:
  assumes "scan_children world d names = (ev, snaps)"
  shows "(\<forall>s\<in>set snaps. \<exists>n\<in>set names. path s = d @ [n] \<and> fromisoformat n = Some (when_dt s)
            \<and> (\<exists>c. fs world (d @ [n]) = Dir c))
       \<and> (\<forall>e\<in>set ev. is_notice e)"
  using assms
proof (induction names arbitrary: ev snaps)
  case Nil
  then show ?case by simp
next
  case (Cons n rest)
  obtain ev' snaps' where r: "scan_children world d rest = (ev', snaps')"
    by (cases "scan_children world d rest") auto
  note ih = Cons.IH [OF r]
  from ih have a: "\<forall>s\<in>set snaps'. \<exists>m\<in>set (n # rest). path s = d @ [m]
            \<and> fromisoformat m = Some (when_dt s) \<and> (\<exists>c. fs world (d @ [m]) = Dir c)"
    by fastforce
  from ih have b: "\<forall>e\<in>set ev'. is_notice e" by blast
  show ?case
  proof (cases "fs world (d @ [n])")
    case (Dir c)
    show ?thesis
    proof (cases "fromisoformat n")
      case None
      with Cons.prems r Dir have "snaps = snaps'" "ev = Say (Msg_bad_name (d @ [n])) # ev'"
        by (simp_all add: Let_def)
      with a b show ?thesis by (simp add: is_notice_def)
    next
      case (Some dt)
      with Cons.prems r Dir have "snaps = \<lparr>path = d @ [n], when_dt = dt\<rparr> # snaps'" "ev = ev'"
        by (simp_all add: Let_def)
      with a b Some Dir show ?thesis by simp
    qed
  next
    case Absent
    with Cons.prems r have "snaps = snaps'" "ev = Say (Msg_not_a_directory (d @ [n])) # ev'"
      by (simp_all add: Let_def)
    with a b show ?thesis by (simp add: is_notice_def)
  next
    case File
    with Cons.prems r have "snaps = snaps'" "ev = Say (Msg_not_a_directory (d @ [n])) # ev'"
      by (simp_all add: Let_def)
    with a b show ?thesis by (simp add: is_notice_def)
  qed
qed

lemma find_snapshots_props:
  assumes "find_snapshots world d = (ev, Inr snaps)"
  shows "(\<forall>s\<in>set snaps. \<exists>n. path s = d @ [n] \<and> fromisoformat n = Some (when_dt s)
            \<and> (\<exists>c. fs world (path s) = Dir c))
       \<and> (\<forall>e\<in>set ev. is_notice e)"
proof (cases "fs world d")
  case Absent
  with assms show ?thesis by (simp add: find_snapshots_def return_def)
next
  case File
  with assms show ?thesis by (simp add: find_snapshots_def raise_def)
next
  case (Dir names)
  obtain ev' snaps' where r: "scan_children world d names = (ev', snaps')"
    by (cases "scan_children world d names") auto
  from assms Dir r have e: "ev = ev'" and s: "sort_snapshots snaps' = Inr snaps"
    by (simp_all add: find_snapshots_def)
  from sort_snapshots_mset [OF s] have "set snaps = set snaps'" by (rule mset_eq_setD)
  with scan_children_props [OF r] e show ?thesis by fastforce
qed

lemma find_snapshots_absent:
  "fs world d = Absent \<Longrightarrow> find_snapshots world d = ([], Inr [])"
  by (simp add: find_snapshots_def return_def)

lemma do_sections_append:
  "do_sections util world options (pre @ rest) =
     (case do_sections util world options pre of
        (ev, Inl e) \<Rightarrow> (ev, Inl e)
      | (ev, Inr _) \<Rightarrow>
          (case do_sections util world options rest of (ev', r) \<Rightarrow> (ev @ ev', r)))"
proof (induction pre)
  case Nil
  show ?case by (simp add: return_def split: prod.splits)
next
  case (Cons n pre)
  show ?case
    by (simp add: Cons.IH split: prod.splits sum.splits)
qed


lemma notice_facts:
  assumes "\<forall>e\<in>set ev. is_notice e"
  shows "Say Msg_making_new \<notin> set ev" "Command args \<notin> set ev"
  using assms by (auto simp add: is_notice_def)

lemma removals_facts:
  "Say msg \<notin> set (removals m snaps)"
  "Command (create_command m' source target) \<notin> set (removals m snaps)"
  by (auto simp add: removals_def create_not_remove)

lemma create_snapshot_events:
  "create_snapshot util world m source target =
     (if fs world target \<noteq> Absent then ([], Inl OperationFailedException)
      else if dry_run util then ([Command (create_command m source target)], Inr ())
      else (case mkdir world (butlast target) of
              Some FileExistsError \<Rightarrow> ([], Inl OperationFailedException)
            | Some e \<Rightarrow> ([], Inl e)
            | None \<Rightarrow>
                if command_fails world (create_command m source target)
                then ([Command (create_command m source target)], Inl OperationFailedException)
                else ([Command (create_command m source target)], Inr ())))"
  by (simp add: create_snapshot_def prepare_target_def run_def bind_def raise_def return_def
      split: option.splits error.splits)

lemma create_snapshot_subset:
  "set (fst (create_snapshot util world m source target))
     \<subseteq> {Command (create_command m source target)}"
  by (simp add: create_snapshot_events split: option.splits error.splits)

text \<open>
  C1. For a section whose options are valid and whose coverage check raises no
  exception, the program announces and requests a new snapshot if and only if
  no existing snapshot has the bucket key of the current time, the offset being
  added to the current time and to each snapshot's timestamp alike. Whenever
  the creation command is issued, its target is the section directory joined
  with \<open>format_time\<close> of the current time, without the offset; and it is issued
  whenever the target can be prepared.
\<close>

theorem C1_coverage_decision:
  assumes rs: "read_section_options (getitem (config options) name) = (ev0, Inr (Some so))"
    and off: "timedelta_of (offset so) 0 0 = Inr off"
    and fs: "find_snapshots world (snapshot_dir options @ [name]) = (ev1, Inr snaps)"
    and cc: "coverage_check (interval so) off (time options) snaps = Inr covered"
  shows "off = \<lparr>days = offset so, seconds = 0, microseconds = 0\<rparr>
       \<and> (Say Msg_making_new \<in> set (fst (do_section util world options name)))
           = (\<not> (\<exists>s\<in>set snaps. bucket_key (interval so) off (when_dt s)
                                   = bucket_key (interval so) off (time options)))
       \<and> (\<forall>target. Command (create_command (snapshot_method so) (source_dir options) target)
                      \<in> set (fst (do_section util world options name))
             \<longrightarrow> target = snapshot_dir options @ [name] @ [format_time (time options)]
                 \<and> Say Msg_making_new \<in> set (fst (do_section util world options name)))
       \<and> (Say Msg_making_new \<in> set (fst (do_section util world options name))
            \<and> prepare_target util world
                 (snapshot_dir options @ [name] @ [format_time (time options)]) = ([], Inr ())
           \<longrightarrow> Command (create_command (snapshot_method so) (source_dir options)
                          (snapshot_dir options @ [name] @ [format_time (time options)]))
                 \<in> set (fst (do_section util world options name)))"
proof -
  let ?m = "snapshot_method so"
  let ?target = "snapshot_dir options @ [name] @ [format_time (time options)]"
  let ?ev = "fst (do_section util world options name)"
  have o: "off = \<lparr>days = offset so, seconds = 0, microseconds = 0\<rparr>"
    using off by (simp add: timedelta_of_days split: if_splits)
  from find_snapshots_props [OF fs] have n: "\<forall>e\<in>set ev1. is_notice e" by blast
  note nf = notice_facts [OF n]
  note iff = coverage_check_iff [OF cc]
  have a0: "0 \<le> amount so" "0 \<le> amount so - 1"
    using read_section_options_Some(2) [OF rs] by simp_all
  show ?thesis
  proof (cases covered)
    case (Some s)
    obtain j where j: "fst (remove_old util world ?m (amount so) snaps) = removals ?m (take j snaps)"
      using remove_old_prefix [OF a0(1), of snaps util world ?m] by blast
    have ev: "?ev = ev1 @ Say (Msg_already_covered (path s)) # removals ?m (take j snaps)"
      using j by (auto simp add: do_section_valid [OF rs off fs cc] Some split: prod.splits)
    have no: "Say Msg_making_new \<notin> set ?ev"
      "\<And>target. Command (create_command ?m (source_dir options) target) \<notin> set ?ev"
      by (simp_all add: ev nf removals_facts)
    from iff Some have "\<exists>s\<in>set snaps. bucket_key (interval so) off (when_dt s)
                                   = bucket_key (interval so) off (time options)"
      by simp
    with no o show ?thesis by blast
  next
    case None
    from iff None have nc: "\<not> (\<exists>s\<in>set snaps. bucket_key (interval so) off (when_dt s)
                                   = bucket_key (interval so) off (time options))"
      by simp
    let ?c = "create_snapshot util world ?m (source_dir options) ?target"
    obtain j where j: "fst (remove_old util world ?m (amount so - 1) snaps)
                       = removals ?m (take j snaps)"
      using remove_old_prefix [OF a0(2), of snaps util world ?m] by blast
    have ev: "?ev = ev1 @ Say Msg_making_new # fst ?c
                @ (if snd ?c = Inr () then removals ?m (take j snaps) else [])"
      using j by (auto simp add: do_section_valid [OF rs off fs cc] None split: prod.splits sum.splits)
    have mk: "Say Msg_making_new \<in> set ?ev" by (simp add: ev)
    have c1: "set (fst ?c) \<subseteq> {Command (create_command ?m (source_dir options) ?target)}"
      by (rule create_snapshot_subset)
    have tg: "\<And>target. Command (create_command ?m (source_dir options) target) \<in> set ?ev
               \<Longrightarrow> target = ?target"
    proof -
      fix target
      assume "Command (create_command ?m (source_dir options) target) \<in> set ?ev"
      then have "Command (create_command ?m (source_dir options) target) \<in> set (fst ?c)"
        by (simp add: ev nf removals_facts split: if_splits)
      with c1 have "create_command ?m (source_dir options) target
                    = create_command ?m (source_dir options) ?target" by auto
      then show "target = ?target" by (rule create_command_inj)
    qed
    have iss: "prepare_target util world ?target = ([], Inr ())
               \<Longrightarrow> Command (create_command ?m (source_dir options) ?target) \<in> set ?ev"
      by (auto simp add: ev create_snapshot_def run_def bind_def)
    from o mk nc tg iss show ?thesis by blast
  qed
qed


text \<open>
  The scenario of the claim: scheme monthly, offset 5 days, current time
  2024-03-27 10:00 and a snapshot of 2024-03-30 00:00. Both shifted times fall
  into April 2024, and no snapshot is announced or requested.
\<close>

theorem C1_coverage_decision_witness:
  "bucket_key interval_monthly \<lparr>days = 5, seconds = 0, microseconds = 0\<rparr> (naive 2024 3 27 10 0)
     = Inr (Key_tuple [2024, 4])
   \<and> bucket_key interval_monthly \<lparr>days = 5, seconds = 0, microseconds = 0\<rparr> (naive 2024 3 30 0 0)
     = Inr (Key_tuple [2024, 4])
   \<and> Say Msg_making_new \<notin> set (fst (do_section real_run (quiet_world c1_fs) c1_options ''monthly''))
   \<and> (\<forall>target. Command (create_command CopyMethod [''data''] target)
          \<notin> set (fst (do_section real_run (quiet_world c1_fs) c1_options ''monthly'')))"
proof -
  let ?so = "\<lparr>snapshot_method = CopyMethod, interval = interval_monthly, offset = 5, amount = 7\<rparr>"
  let ?off = "\<lparr>days = 5, seconds = 0, microseconds = 0\<rparr>"
  have g: "get (getitem (config c1_options) ''monthly'') ''method'' ''copy'' = Inr ''copy''"
    "get (getitem (config c1_options) ''monthly'') ''interval'' ''daily'' = Inr ''monthly''"
    "get (getitem (config c1_options) ''monthly'') ''offset'' ''0d'' = Inr ''5d''"
    by (simp_all add: c1_options_def options_at_def get_def)
  have rs: "read_section_options (getitem (config c1_options) ''monthly'') = ([], Inr (Some ?so))"
    by (simp add: read_section_options_unfold [OF g] Let_def method_from_string_def
        interval_from_string_def days_from_string_def py_int_def strip_def strip_chars_def
        isspace_def int_blank_def is_digit_def digit_val_def INTERVALS_def MAX_STR_DIGITS_def)
       (simp add: getint_def c1_options_def options_at_def)
  have off: "timedelta_of (offset ?so) 0 0 = Inr ?off"
    by (simp add: timedelta_of_def)
  have fs: "find_snapshots (quiet_world c1_fs) (snapshot_dir c1_options @ [''monthly''])
            = ([], Inr [c1_snapshot])"
    by code_simp
  have cc: "coverage_check (interval ?so) ?off (time c1_options) [c1_snapshot]
            = Inr (Some c1_snapshot)"
    by code_simp
  have k1: "bucket_key interval_monthly ?off (naive 2024 3 27 10 0) = Inr (Key_tuple [2024, 4])"
    by code_simp
  have k2: "bucket_key interval_monthly ?off (naive 2024 3 30 0 0) = Inr (Key_tuple [2024, 4])"
    by code_simp
  have t: "time c1_options = naive 2024 3 27 10 0" "when_dt c1_snapshot = naive 2024 3 30 0 0"
    "source_dir c1_options = [''data'']"
    by (simp_all add: c1_options_def options_at_def c1_snapshot_def)
  have ex: "\<exists>s\<in>set [c1_snapshot]. bucket_key (interval ?so) ?off (when_dt s)
              = bucket_key (interval ?so) ?off (time c1_options)"
    by (simp add: t k1 k2)
  from C1_coverage_decision [OF rs off fs cc, of real_run] ex
  have a: "Say Msg_making_new \<notin> set (fst (do_section real_run (quiet_world c1_fs) c1_options ''monthly''))"
    and b: "\<forall>target. Command (create_command (snapshot_method ?so) (source_dir c1_options) target)
                      \<in> set (fst (do_section real_run (quiet_world c1_fs) c1_options ''monthly''))
             \<longrightarrow> Say Msg_making_new
                   \<in> set (fst (do_section real_run (quiet_world c1_fs) c1_options ''monthly''))"
    by blast+
  from a b have c: "\<forall>target. Command (create_command CopyMethod [''data''] target)
          \<notin> set (fst (do_section real_run (quiet_world c1_fs) c1_options ''monthly''))"
    by (auto simp add: t)
  from k1 k2 a c show ?thesis by blast
qed

subsection \<open>Pruning\<close>

lemma insort_snapshot_naive:
  assumes "tzinfo (when_dt x) = None" and "\<forall>y\<in>set ys. tzinfo (when_dt y) = None"
  shows "insort_snapshot x ys = Inr (insort_key (\<lambda>s. field_tuple (when_dt s)) x ys)"
  using assms(2)
proof (induction ys)
  case Nil
  show ?case by simp
next
  case (Cons y ys)
  then have ih: "insort_snapshot x ys = Inr (insort_key (\<lambda>s. field_tuple (when_dt s)) x ys)"
    and y: "tzinfo (when_dt y) = None" by simp_all
  have lt: "datetime_lt (when_dt y) (when_dt x) = Inr (field_tuple (when_dt y) < field_tuple (when_dt x))"
    by (simp add: datetime_lt_def assms(1) y)
  show ?case
    by (cases "field_tuple (when_dt y) < field_tuple (when_dt x)") (auto simp add: lt ih)
qed

lemma sort_snapshots_naive:
  assumes "\<forall>y\<in>set xs. tzinfo (when_dt y) = None"
  shows "sort_snapshots xs = Inr (sort_key (\<lambda>s. field_tuple (when_dt s)) xs)"
  using assms
proof (induction xs)
  case Nil
  show ?case by simp
next
  case (Cons x xs)
  then have ih: "sort_snapshots xs = Inr (sort_key (\<lambda>s. field_tuple (when_dt s)) xs)"
    and x: "tzinfo (when_dt x) = None" and xs: "\<forall>y\<in>set xs. tzinfo (when_dt y) = None"
    by simp_all
  have "\<forall>y\<in>set (sort_key (\<lambda>s. field_tuple (when_dt s)) xs). tzinfo (when_dt y) = None"
    using xs by simp
  from insort_snapshot_naive [OF x this] show ?case by (simp add: ih)
qed

lemma find_snapshots_naive_sorted:
  assumes "find_snapshots world d = (ev, Inr snaps)"
    and "\<forall>s\<in>set snaps. tzinfo (when_dt s) = None"
  shows "sorted (map (\<lambda>s. field_tuple (when_dt s)) snaps)"
proof (cases "fs world d")
  case Absent
  with assms show ?thesis by (simp add: find_snapshots_def return_def)
next
  case File
  with assms show ?thesis by (simp add: find_snapshots_def raise_def)
next
  case (Dir names)
  obtain ev' snaps' where r: "scan_children world d names = (ev', snaps')"
    by (cases "scan_children world d names") auto
  from assms(1) Dir r have s: "sort_snapshots snaps' = Inr snaps"
    by (simp add: find_snapshots_def)
  from sort_snapshots_mset [OF s] have "set snaps = set snaps'" by (rule mset_eq_setD)
  with assms(2) have "\<forall>y\<in>set snaps'. tzinfo (when_dt y) = None" by simp
  from sort_snapshots_naive [OF this] s
  have "snaps = sort_key (\<lambda>s. field_tuple (when_dt s)) snaps'" by simp
  then show ?thesis by simp
qed

lemma find_snapshots_naive_stable:
  assumes "fs world d = Dir names"
    and "\<forall>s\<in>set (snd (scan_children world d names)). tzinfo (when_dt s) = None"
  shows "find_snapshots world d
         = (fst (scan_children world d names),
            Inr (sort_key (\<lambda>s. field_tuple (when_dt s)) (snd (scan_children world d names))))"
  using assms(1) sort_snapshots_naive [OF assms(2)]
  by (auto simp add: find_snapshots_def split: prod.splits)


lemma no_removal_in_notices:
  assumes "\<forall>e\<in>set ev. is_notice e"
  shows "Command (remove_command m p) \<notin> set ev"
  using assms by (auto simp add: is_notice_def)

text \<open>
  C2. For a section with valid options whose listing and coverage check raise
  no exception, let \<open>e\<close> be the number of existing snapshots and \<open>c\<close> be 1 when
  the section decides to create a snapshot and 0 otherwise. The removal
  commands are the last events of the section and remove a prefix of the
  listing, which is in ascending order of timestamps: at most
  \<open>max(0, e + c - amount)\<close> snapshots, and exactly that many when the section
  completes (a failed operation ends it earlier). The target of a creation
  command is not among the snapshots of the listing, so it is never removed.
\<close>

theorem C2_pruning:
  assumes rs: "read_section_options (getitem (config options) name) = (ev0, Inr (Some so))"
    and off: "timedelta_of (offset so) 0 0 = Inr off"
    and fs: "find_snapshots world (snapshot_dir options @ [name]) = (ev1, Inr snaps)"
    and cc: "coverage_check (interval so) off (time options) snaps = Inr covered"
  shows "\<exists>pre j.
           fst (do_section util world options name)
             = pre @ removals (snapshot_method so) (take j snaps)
         \<and> (\<forall>m p. Command (remove_command m p) \<notin> set pre)
         \<and> j \<le> nat (int (length snaps) + (if covered = None then 1 else 0) - amount so)
         \<and> (snd (do_section util world options name) = Inr ()
              \<longrightarrow> j = nat (int (length snaps) + (if covered = None then 1 else 0) - amount so))
         \<and> (\<forall>target. Command (create_command (snapshot_method so) (source_dir options) target)
                         \<in> set pre
                \<longrightarrow> target \<notin> path ` set snaps)
         \<and> ((\<forall>s\<in>set snaps. tzinfo (when_dt s) = None)
                \<longrightarrow> sorted (map (\<lambda>s. field_tuple (when_dt s)) snaps))"
proof -
  let ?m = "snapshot_method so"
  let ?target = "snapshot_dir options @ [name] @ [format_time (time options)]"
  from find_snapshots_props [OF fs] have n: "\<forall>e\<in>set ev1. is_notice e"
    and dirs: "\<forall>s\<in>set snaps. \<exists>c. fs world (path s) = Dir c" by blast+
  note nf = notice_facts [OF n] no_removal_in_notices [OF n]
  have a0: "0 \<le> amount so" "0 \<le> amount so - 1"
    using read_section_options_Some(2) [OF rs] by simp_all
  have srt: "(\<forall>s\<in>set snaps. tzinfo (when_dt s) = None)
                \<longrightarrow> sorted (map (\<lambda>s. field_tuple (when_dt s)) snaps)"
    using find_snapshots_naive_sorted [OF fs] by blast
  show ?thesis
  proof (cases covered)
    case (Some s)
    let ?r = "remove_old util world ?m (amount so) snaps"
    obtain j where j: "j \<le> nat (int (length snaps) - amount so)"
      "fst ?r = removals ?m (take j snaps)"
      "snd ?r = Inr () \<longrightarrow> j = nat (int (length snaps) - amount so)"
      using remove_old_prefix [OF a0(1), of snaps util world ?m] by blast
    let ?pre = "ev1 @ [Say (Msg_already_covered (path s))]"
    have ev: "fst (do_section util world options name) = ?pre @ removals ?m (take j snaps)"
      and sn: "snd (do_section util world options name) = snd ?r"
      using j(2) by (auto simp add: do_section_valid [OF rs off fs cc] Some split: prod.splits)
    have p1: "\<forall>m p. Command (remove_command m p) \<notin> set ?pre" by (simp add: nf)
    have p2: "\<forall>target. Command (create_command ?m (source_dir options) target) \<in> set ?pre
                \<longrightarrow> target \<notin> path ` set snaps" by (simp add: nf)
    show ?thesis
      using ev p1 p2 j(1,3) srt by (intro exI [of _ ?pre] exI [of _ j]) (simp add: Some sn)
  next
    case None
    let ?c = "create_snapshot util world ?m (source_dir options) ?target"
    let ?r = "remove_old util world ?m (amount so - 1) snaps"
    obtain j0 where j0: "j0 \<le> nat (int (length snaps) - (amount so - 1))"
      "fst ?r = removals ?m (take j0 snaps)"
      "snd ?r = Inr () \<longrightarrow> j0 = nat (int (length snaps) - (amount so - 1))"
      using remove_old_prefix [OF a0(2), of snaps util world ?m] by blast
    let ?pre = "ev1 @ Say Msg_making_new # fst ?c"
    define j where "j = (if snd ?c = Inr () then j0 else 0)"
    have ev: "fst (do_section util world options name) = ?pre @ removals ?m (take j snaps)"
      and sn: "snd (do_section util world options name)
               = (if snd ?c = Inr () then snd ?r else snd ?c)"
      using j0(2)
      by (auto simp add: do_section_valid [OF rs off fs cc] None j_def removals_def
          split: prod.splits sum.splits)
    have c1: "set (fst ?c) \<subseteq> {Command (create_command ?m (source_dir options) ?target)}"
      by (rule create_snapshot_subset)
    have p0: "Command (remove_command m p) \<notin> set (fst ?c)" for m p
    proof
      assume "Command (remove_command m p) \<in> set (fst ?c)"
      with c1 have "remove_command m p = create_command ?m (source_dir options) ?target"
        by auto
      with create_not_remove [of ?m "source_dir options" ?target m p] show False by simp
    qed
    have p1: "\<forall>m p. Command (remove_command m p) \<notin> set ?pre"
      using p0 by (simp add: nf)
    have absent: "fst ?c \<noteq> [] \<Longrightarrow> fs world ?target = Absent"
      by (auto simp add: create_snapshot_events split: if_splits option.splits error.splits)
    have p2: "\<forall>target. Command (create_command ?m (source_dir options) target) \<in> set ?pre
                \<longrightarrow> target \<notin> path ` set snaps"
    proof (intro allI impI)
      fix target
      assume "Command (create_command ?m (source_dir options) target) \<in> set ?pre"
      then have in_c: "Command (create_command ?m (source_dir options) target) \<in> set (fst ?c)"
        by (simp add: nf)
      with c1 have "create_command ?m (source_dir options) target
                    = create_command ?m (source_dir options) ?target" by auto
      then have t: "target = ?target" by (rule create_command_inj)
      from in_c have "fst ?c \<noteq> []" by auto
      from absent [OF this] dirs show "target \<notin> path ` set snaps"
        unfolding t by force
    qed
    have b1: "j \<le> nat (int (length snaps) + 1 - amount so)"
      using j0(1) by (simp add: j_def algebra_simps)
    have b2: "snd (do_section util world options name) = Inr ()
              \<longrightarrow> j = nat (int (length snaps) + 1 - amount so)"
      using j0(3) by (auto simp add: sn j_def algebra_simps split: if_splits)
    show ?thesis
      using ev p1 p2 b1 b2 srt by (intro exI [of _ ?pre] exI [of _ j]) (simp add: None)
  qed
qed


text \<open>
  The example of the specification: five daily snapshots of 1 to 5 January
  2024, listed by the directory in another order, \<open>amount = 3\<close>, and a run on
  5 January, whose day is covered. The section completes, its events end with
  the removal of the snapshots of 1 and 2 January, in this order, and nothing
  before them is a removal.
\<close>

theorem C2_pruning_witness:
  "(\<exists>pre. fst (do_section real_run (quiet_world january_fs) c2_options ''daily'')
            = pre @ removals CopyMethod [january_snapshot 1, january_snapshot 2]
          \<and> (\<forall>m p. Command (remove_command m p) \<notin> set pre))
   \<and> snd (do_section real_run (quiet_world january_fs) c2_options ''daily'') = Inr ()
   \<and> sorted (map (\<lambda>s. field_tuple (when_dt s))
        [january_snapshot 1, january_snapshot 2, january_snapshot 3, january_snapshot 4, january_snapshot 5])"
proof -
  let ?so = "\<lparr>snapshot_method = CopyMethod, interval = interval_daily, offset = 0, amount = 3\<rparr>"
  let ?off = "\<lparr>days = 0, seconds = 0, microseconds = 0\<rparr>"
  let ?snaps = "[january_snapshot 1, january_snapshot 2, january_snapshot 3, january_snapshot 4, january_snapshot 5]"
  have g: "get (getitem (config c2_options) ''daily'') ''method'' ''copy'' = Inr ''copy''"
    "get (getitem (config c2_options) ''daily'') ''interval'' ''daily'' = Inr ''daily''"
    "get (getitem (config c2_options) ''daily'') ''offset'' ''0d'' = Inr ''0d''"
    by (simp_all add: c2_options_def options_at_def get_def)
  have rs: "read_section_options (getitem (config c2_options) ''daily'') = ([], Inr (Some ?so))"
    by (simp add: read_section_options_unfold [OF g] Let_def method_from_string_def
        interval_from_string_def days_from_string_def py_int_def strip_def strip_chars_def
        isspace_def int_blank_def is_digit_def digit_val_def INTERVALS_def MAX_STR_DIGITS_def)
       (simp add: getint_def c2_options_def options_at_def py_int_def strip_chars_def
          int_blank_def is_digit_def digit_val_def MAX_STR_DIGITS_def)
  have off: "timedelta_of (offset ?so) 0 0 = Inr ?off"
    by (simp add: timedelta_of_def)
  have fs: "find_snapshots (quiet_world january_fs) (snapshot_dir c2_options @ [''daily''])
            = ([], Inr ?snaps)"
    by code_simp
  have cc: "coverage_check (interval ?so) ?off (time c2_options) ?snaps
            = Inr (Some (january_snapshot 5))"
    by code_simp
  have fin: "snd (do_section real_run (quiet_world january_fs) c2_options ''daily'') = Inr ()"
    by code_simp
  have naive: "\<forall>s\<in>set ?snaps. tzinfo (when_dt s) = None"
    by (simp add: january_snapshot_def naive_def)
  from C2_pruning [OF rs off fs cc, of real_run]
  obtain pre j where
    ev: "fst (do_section real_run (quiet_world january_fs) c2_options ''daily'')
           = pre @ removals (snapshot_method ?so) (take j ?snaps)"
    and p: "\<forall>m p. Command (remove_command m p) \<notin> set pre"
    and j: "snd (do_section real_run (quiet_world january_fs) c2_options ''daily'') = Inr ()
              \<longrightarrow> j = nat (int (length ?snaps) + (if Some (january_snapshot 5) = None then 1 else 0)
                            - amount ?so)"
    and srt: "(\<forall>s\<in>set ?snaps. tzinfo (when_dt s) = None)
                \<longrightarrow> sorted (map (\<lambda>s. field_tuple (when_dt s)) ?snaps)"
    by blast
  from j fin have "j = 2" by simp
  with ev have "fst (do_section real_run (quiet_world january_fs) c2_options ''daily'')
           = pre @ removals CopyMethod [january_snapshot 1, january_snapshot 2]"
    by (simp add: numeral_2_eq_2)
  with p fin srt naive show ?thesis by blast
qed

subsection \<open>Failed operations\<close>

lemma main_header:
  "main util world options =
     (header util options @ fst (do_sections util world options (sections (config options))),
      snd (do_sections util world options (sections (config options))))"
  by (simp add: main_def header_def bind_say)

lemma do_sections_fails:
  assumes "snd (do_sections util world options pre) = Inr ()"
    and "snd (do_section util world options name) = Inl e"
  shows "do_sections util world options (pre @ name # rest) =
           (fst (do_sections util world options pre)
              @ Say Msg_blank # Say (Msg_section name) # fst (do_section util world options name),
            Inl e)"
proof -
  obtain ev where a: "do_sections util world options pre = (ev, Inr ())"
    using assms(1) by (cases "do_sections util world options pre") auto
  obtain ev' where b: "do_section util world options name = (ev', Inl e)"
    using assms(2) by (cases "do_section util world options name") auto
  show ?thesis
    by (simp add: do_sections_append a b bind_say)
qed

lemma script_fails:
  assumes "sections (config options) = pre @ name # rest"
    and "snd (do_sections util world options pre) = Inr ()"
    and "snd (do_section util world options name) = Inl OperationFailedException"
  shows "script util world options =
           (header util options @ fst (do_sections util world options pre)
              @ Say Msg_blank # Say (Msg_section name) # fst (do_section util world options name),
            Operation_failed)"
  by (simp add: script_def main_header assms(1) do_sections_fails [OF assms(2,3)])

lemma creation_fails_raises:
  assumes "creation_fails util world m source target"
  shows "snd (create_snapshot util world m source target) = Inl OperationFailedException"
  using assms by (auto simp add: creation_fails_def create_snapshot_events)

lemma remove_old_fails:
  assumes "0 \<le> limit"
    and "\<exists>s\<in>set (take (nat (int (length snaps) - limit)) snaps). removal_fails util world m (path s)"
  shows "snd (remove_old util world m limit snaps) \<noteq> Inr ()"
  using assms
proof (induction snaps)
  case Nil
  then show ?case by simp
next
  case (Cons s rest)
  show ?case
  proof (cases "int (length (s # rest)) > limit")
    case False
    with Cons.prems show ?thesis by simp
  next
    case big: True
    then obtain k where k: "nat (int (length (s # rest)) - limit) = Suc k"
      by (cases "nat (int (length (s # rest)) - limit)") auto
    then have k': "nat (int (length rest) - limit) = k" by simp
    show ?thesis
    proof (cases "removal_fails util world m (path s)")
      case True
      then show ?thesis using big
        by (simp add: removal_fails_def remove_snapshot_def run_def)
    next
      case False
      with Cons.prems(2) k
      have "\<exists>s\<in>set (take (nat (int (length rest) - limit)) rest). removal_fails util world m (path s)"
        by (auto simp add: k')
      from Cons.IH [OF Cons.prems(1) this] show ?thesis using big
        by (auto simp add: remove_snapshot_def run_def split: prod.splits sum.splits)
    qed
  qed
qed


text \<open>
  C3 (amended). In a section with valid options whose listing and coverage
  check raise no exception, let a snapshot creation fail (the target exists,
  the parent directory cannot be created, or the command fails), or let the
  creation, if any, succeed and the removal of one of the snapshots due for
  pruning fail. Then the run ends at the failed operation with the outcome
  ``Operation failed'' and exit status 1. Its events are the header, those of
  the sections before, the announcement of this section and this section's
  events up to the failed operation: after a failed creation no snapshot is
  removed, after a failed removal no further one, and no later section is
  announced or processed.
\<close>

theorem C3_failure_aborts:
  assumes secs: "sections (config options) = pre @ name # rest"
    and pre: "snd (do_sections util world options pre) = Inr ()"
    and rs: "read_section_options (getitem (config options) name) = (ev0, Inr (Some so))"
    and off: "timedelta_of (offset so) 0 0 = Inr off"
    and fs: "find_snapshots world (snapshot_dir options @ [name]) = (ev1, Inr snaps)"
    and cc: "coverage_check (interval so) off (time options) snaps = Inr covered"
    and target: "target = snapshot_dir options @ [name] @ [format_time (time options)]"
    and due: "due = nat (int (length snaps) + (if covered = None then 1 else 0) - amount so)"
    and fail: "(covered = None
                  \<and> creation_fails util world (snapshot_method so) (source_dir options) target)
             \<or> ((covered = None
                    \<longrightarrow> snd (create_snapshot util world (snapshot_method so) (source_dir options)
                               target) = Inr ())
                 \<and> (\<exists>s\<in>set (take due snaps).
                        removal_fails util world (snapshot_method so) (path s)))"
  shows "\<exists>j. script util world options =
           (header util options @ fst (do_sections util world options pre)
              @ Say Msg_blank # Say (Msg_section name) # ev1
              @ (case covered of
                   None \<Rightarrow> Say Msg_making_new
                            # fst (create_snapshot util world (snapshot_method so)
                                     (source_dir options) target)
                 | Some s \<Rightarrow> [Say (Msg_already_covered (path s))])
              @ removals (snapshot_method so) (take j snaps),
            Operation_failed)
         \<and> exit_status (snd (script util world options)) = 1
         \<and> (if covered = None
               \<and> creation_fails util world (snapshot_method so) (source_dir options) target
            then j = 0
            else 0 < j \<and> j \<le> due
                 \<and> removal_fails util world (snapshot_method so) (path (snaps ! (j - 1))))"
proof -
  let ?m = "snapshot_method so"
  let ?c = "create_snapshot util world ?m (source_dir options) target"
  let ?d = "do_section util world options name"
  note v = do_section_valid [OF rs off fs cc, of util, folded target]
  have a0: "0 \<le> amount so" "0 \<le> amount so - 1"
    using read_section_options_Some(2) [OF rs] by simp_all
  have main: "\<exists>j. ?d = (ev1 @ (case covered of
                   None \<Rightarrow> Say Msg_making_new # fst ?c
                 | Some s \<Rightarrow> [Say (Msg_already_covered (path s))])
              @ removals ?m (take j snaps), Inl OperationFailedException)
         \<and> (if covered = None \<and> creation_fails util world ?m (source_dir options) target
            then j = 0
            else 0 < j \<and> j \<le> due \<and> removal_fails util world ?m (path (snaps ! (j - 1))))"
  proof (cases "covered = None \<and> creation_fails util world ?m (source_dir options) target")
    case True
    then have c: "snd ?c = Inl OperationFailedException" by (simp add: creation_fails_raises)
    then obtain ev2 where c': "?c = (ev2, Inl OperationFailedException)" by (cases ?c) auto
    show ?thesis using True
      by (intro exI [of _ 0]) (simp add: v c' removals_def)
  next
    case False
    with fail have ok: "covered = None \<longrightarrow> snd ?c = Inr ()"
      and rf: "\<exists>s\<in>set (take due snaps). removal_fails util world ?m (path s)" by blast+
    define limit where "limit = (if covered = None then amount so - 1 else amount so)"
    have l0: "0 \<le> limit" using a0 by (simp add: limit_def)
    have d: "due = nat (int (length snaps) - limit)"
      by (simp add: due limit_def algebra_simps)
    let ?r = "remove_old util world ?m limit snaps"
    from remove_old_fails [OF l0 rf [unfolded d]] have nr: "snd ?r \<noteq> Inr ()" .
    from remove_old_prefix [OF l0, of snaps util world ?m] nr
    obtain j where j: "j \<le> due" "fst ?r = removals ?m (take j snaps)"
      "snd ?r = Inl OperationFailedException" "0 < j" "\<not> dry_run util"
      "command_fails world (remove_command ?m (path (snaps ! (j - 1))))"
      unfolding d by blast
    have r: "?r = (removals ?m (take j snaps), Inl OperationFailedException)"
      using j(2,3) by (cases ?r) auto
    have "?d = (ev1 @ (case covered of
                   None \<Rightarrow> Say Msg_making_new # fst ?c
                 | Some s \<Rightarrow> [Say (Msg_already_covered (path s))])
              @ removals ?m (take j snaps), Inl OperationFailedException)"
    proof (cases covered)
      case None
      with ok obtain ev2 where c': "?c = (ev2, Inr ())" by (cases ?c) auto
      show ?thesis using r by (simp add: v None c' limit_def)
    next
      case (Some s)
      show ?thesis using r by (simp add: v Some limit_def)
    qed
    with False j show ?thesis
      by (intro exI [of _ j]) (simp add: removal_fails_def)
  qed
  then obtain j where j: "?d = (ev1 @ (case covered of
                   None \<Rightarrow> Say Msg_making_new # fst ?c
                 | Some s \<Rightarrow> [Say (Msg_already_covered (path s))])
              @ removals ?m (take j snaps), Inl OperationFailedException)"
    and j': "if covered = None \<and> creation_fails util world ?m (source_dir options) target
            then j = 0
            else 0 < j \<and> j \<le> due \<and> removal_fails util world ?m (path (snaps ! (j - 1)))"
    by blast
  have sd: "snd ?d = Inl OperationFailedException" by (simp add: j)
  have s: "script util world options =
           (header util options @ fst (do_sections util world options pre)
              @ Say Msg_blank # Say (Msg_section name) # ev1
              @ (case covered of
                   None \<Rightarrow> Say Msg_making_new # fst ?c
                 | Some s \<Rightarrow> [Say (Msg_already_covered (path s))])
              @ removals ?m (take j snaps),
            Operation_failed)"
    by (simp add: script_fails [OF secs pre sd] j)
  have e: "exit_status (snd (script util world options)) = 1"
    by (simp add: s exit_status_def)
  from s e j' show ?thesis by (intro exI [of _ j]) simp
qed


text \<open>
  A run over the sections \<^verbatim>\<open>daily\<close> and \<^verbatim>\<open>weekly\<close>: \<^verbatim>\<open>daily\<close> holds five
  snapshots, keeps three and is covered, and the removal of its oldest
  snapshot fails. The run ends with that command: the second snapshot due for
  pruning is not removed, \<^verbatim>\<open>weekly\<close> is never announced, and the exit status
  is 1.
\<close>

theorem C3_failure_aborts_witness:
  "script real_run c3_removal_world c3_removal_options =
     (header real_run c3_removal_options
        @ [Say Msg_blank, Say (Msg_section ''daily''),
           Say (Msg_already_covered (path (january_snapshot 5))),
           Command (remove_command CopyMethod (path (january_snapshot 1)))],
      Operation_failed)
   \<and> exit_status (snd (script real_run c3_removal_world c3_removal_options)) = 1"
proof -
  let ?so = "\<lparr>snapshot_method = CopyMethod, interval = interval_daily, offset = 0, amount = 3\<rparr>"
  let ?off = "\<lparr>days = 0, seconds = 0, microseconds = 0\<rparr>"
  let ?snaps = "[january_snapshot 1, january_snapshot 2, january_snapshot 3, january_snapshot 4, january_snapshot 5]"
  let ?target = "snapshot_dir c3_removal_options @ [''daily'']
                   @ [format_time (time c3_removal_options)]"
  have secs: "sections (config c3_removal_options) = [] @ ''daily'' # [''weekly'']"
    by (simp add: c3_removal_options_def options_at_def)
  have pre: "snd (do_sections real_run c3_removal_world c3_removal_options []) = Inr ()"
    by (simp add: return_def)
  have g: "get (getitem (config c3_removal_options) ''daily'') ''method'' ''copy'' = Inr ''copy''"
    "get (getitem (config c3_removal_options) ''daily'') ''interval'' ''daily'' = Inr ''daily''"
    "get (getitem (config c3_removal_options) ''daily'') ''offset'' ''0d'' = Inr ''0d''"
    by (simp_all add: c3_removal_options_def options_at_def get_def)
  have rs: "read_section_options (getitem (config c3_removal_options) ''daily'')
            = ([], Inr (Some ?so))"
    by (simp add: read_section_options_unfold [OF g] Let_def method_from_string_def
        interval_from_string_def days_from_string_def py_int_def strip_def strip_chars_def
        isspace_def int_blank_def is_digit_def digit_val_def INTERVALS_def MAX_STR_DIGITS_def)
       (simp add: getint_def c3_removal_options_def options_at_def py_int_def strip_chars_def
          int_blank_def is_digit_def digit_val_def MAX_STR_DIGITS_def)
  have off: "timedelta_of (offset ?so) 0 0 = Inr ?off"
    by (simp add: timedelta_of_def)
  have fs: "find_snapshots c3_removal_world (snapshot_dir c3_removal_options @ [''daily''])
            = ([], Inr ?snaps)"
    by code_simp
  have cc: "coverage_check (interval ?so) ?off (time c3_removal_options) ?snaps
            = Inr (Some (january_snapshot 5))"
    by code_simp
  have due: "(2::nat) = nat (int (length ?snaps)
                 + (if Some (january_snapshot 5) = None then 1 else 0) - amount ?so)"
    by simp
  have rf1: "removal_fails real_run c3_removal_world CopyMethod (path (january_snapshot 1))"
    by (simp add: removal_fails_def real_run_def c3_removal_world_def)
  have rf2: "\<not> removal_fails real_run c3_removal_world CopyMethod (path (january_snapshot 2))"
    by (simp add: removal_fails_def real_run_def c3_removal_world_def remove_command_def
        january_snapshot_def digit_char_def)
  have fail: "(Some (january_snapshot 5) = None
                  \<and> creation_fails real_run c3_removal_world (snapshot_method ?so)
                       (source_dir c3_removal_options) ?target)
             \<or> ((Some (january_snapshot 5) = None
                    \<longrightarrow> snd (create_snapshot real_run c3_removal_world (snapshot_method ?so)
                               (source_dir c3_removal_options) ?target) = Inr ())
                 \<and> (\<exists>s\<in>set (take 2 ?snaps).
                        removal_fails real_run c3_removal_world (snapshot_method ?so) (path s)))"
    using rf1 by simp
  from C3_failure_aborts [OF secs pre rs off fs cc refl due fail]
  obtain j where
    s: "script real_run c3_removal_world c3_removal_options =
           (header real_run c3_removal_options
              @ fst (do_sections real_run c3_removal_world c3_removal_options [])
              @ Say Msg_blank # Say (Msg_section ''daily'') # []
              @ [Say (Msg_already_covered (path (january_snapshot 5)))]
              @ removals (snapshot_method ?so) (take j ?snaps),
            Operation_failed)"
    and e: "exit_status (snd (script real_run c3_removal_world c3_removal_options)) = 1"
    and j: "0 < j" "j \<le> 2"
      "removal_fails real_run c3_removal_world (snapshot_method ?so) (path (?snaps ! (j - 1)))"
    by auto
  from j(1,2) have "j = 1 \<or> j = 2" by arith
  with j(3) rf2 have j1: "j = 1" by auto
  from s e show ?thesis
    by (simp add: j1 removals_def return_def)
qed


end
